theory Spec2Isabelle
  imports Main "HOL-Library.AList" "HOL-Library.Char_ord" "HOL-Library.List_Lexorder"
begin

section \<open>FocusGate service worker: the reconciliation engine\<close>

text \<open>
  A shallow embedding of the extension's service worker (the file with \<open>syncRules\<close>,
  \<open>reconcileDomains\<close>, \<open>hasHostAccess\<close>, \<open>domainRule\<close> and the message router) and of
  \<open>getDomainFromHash\<close> in \<open>blocked.js\<close>.

  Conventions of the model.
  \<^item> A JavaScript string is a HOL \<open>string\<close>: a list of code units below 256. Lengths,
    comparisons and sorting are by code unit, as in JavaScript.
  \<^item> A JavaScript number that the code computes with (timestamps, minutes) is an \<open>int\<close>;
    \<open>NaN\<close>, which \<open>parseInt\<close> in the user interface can produce, is a value of its own.
  \<^item> An \<open>async\<close> function is a function from the world to a completion and a new world.
    A rejected promise is the completion \<open>Threw msg\<close>; the world it leaves is kept.
  \<^item> The browser is part of the world: the two storage areas, the granted permissions,
    the installed dynamic rules, the alarms and the clock.

  The model leaves out: storage and alarm calls that fail, the time that passes within
  one operation, code units above 255, and the key \<open>__proto__\<close>, which JavaScript does
  not store in an object.
\<close>

subsection \<open>The coordinator's two flags\<close>

text \<open>\<open>let _syncing = false; let _needsResync = false;\<close>\<close>

record coord =
  syncing :: bool
  needsResync :: bool

text \<open>
  The synchronous prefix of \<open>syncRules\<close> (the test of \<open>_syncing\<close>): the result says
  whether this call starts a pass.
\<close>

definition enter :: "'a coord_scheme \<Rightarrow> bool \<times> 'a coord_scheme" where
  "enter c = (if syncing c then (False, c\<lparr>needsResync := True\<rparr>)
              else (True, c\<lparr>syncing := True\<rparr>))"

text \<open>
  The \<open>finally\<close> block up to its recursive call: the result says whether
  \<open>syncRules\<close> is called again.
\<close>

definition leave :: "'a coord_scheme \<Rightarrow> bool \<times> 'a coord_scheme" where
  "leave c = (let c1 = c\<lparr>syncing := False\<rparr> in
              if needsResync c1 then (True, c1\<lparr>needsResync := False\<rparr>) else (False, c1))"

subsection \<open>Interleaved requests\<close>

text \<open>
  The worker is single threaded: between two \<open>await\<close>s nothing else runs. What can
  interleave with a pass is a further call of \<open>syncRules\<close> (\<open>Request\<close>) and the end of the
  pass in flight, where its \<open>finally\<close> block runs (\<open>Complete\<close>). The two counters are not in
  the source: they count the passes that have begun and the passes that have ended, so that
  the number in flight can be stated.
\<close>

datatype event = Request | Complete

record tracker = coord +
  started :: nat
  finished :: nat

definition request :: "tracker \<Rightarrow> tracker" where
  "request t = (case enter t of
                  (True, t1) \<Rightarrow> t1\<lparr>started := started t1 + 1\<rparr>
                | (False, t1) \<Rightarrow> t1)"

definition complete :: "tracker \<Rightarrow> tracker" where
  "complete t = (if finished t < started t then
                   (case leave (t\<lparr>finished := finished t + 1\<rparr>) of
                      (True, t1) \<Rightarrow> request t1
                    | (False, t1) \<Rightarrow> t1)
                 else t)"

fun step :: "tracker \<Rightarrow> event \<Rightarrow> tracker" where
  "step t Request = request t"
| "step t Complete = complete t"

definition run :: "event list \<Rightarrow> tracker \<Rightarrow> tracker" where
  "run evs t = foldl step t evs"

definition idle :: tracker where
  "idle = \<lparr>syncing = False, needsResync = False, started = 0, finished = 0\<rparr>"

definition inFlight :: "tracker \<Rightarrow> nat" where
  "inFlight t = started t - finished t"

text \<open>The flags agree with the counters, and a resync is pending only during a pass.\<close>

definition coherent :: "tracker \<Rightarrow> bool" where
  "coherent t = (started t = finished t + (if syncing t then 1 else 0) \<and>
                 (needsResync t \<longrightarrow> syncing t))"

subsection \<open>JavaScript values\<close>

text \<open>
  The values a message field can hold. \<open>JObject\<close> stands for a plain object: the code
  only tests such a value for truthiness and uses it as a property key. Numbers are the
  integers; arrays are left out.
\<close>

datatype jsval = JUndefined | JNull | JBool bool | JNum int | JNaN | JStr string | JObject

fun truthy :: "jsval \<Rightarrow> bool" where
  "truthy JUndefined = False"
| "truthy JNull = False"
| "truthy (JBool b) = b"
| "truthy (JNum n) = (n \<noteq> 0)"
| "truthy JNaN = False"
| "truthy (JStr s) = (s \<noteq> [])"
| "truthy JObject = True"

text \<open>\<open>typeof v === 'string'\<close>\<close>

fun typeofString :: "jsval \<Rightarrow> bool" where
  "typeofString (JStr s) = True"
| "typeofString v = False"

text \<open>\<open>typeof v === 'number' && v > 0\<close>: \<open>NaN\<close> is a number and is not above 0.\<close>

fun positiveNumber :: "jsval \<Rightarrow> bool" where
  "positiveNumber (JNum n) = (0 < n)"
| "positiveNumber v = False"

fun numberOf :: "jsval \<Rightarrow> int" where
  "numberOf (JNum n) = n"
| "numberOf v = 0"

fun stringOf :: "jsval \<Rightarrow> string" where
  "stringOf (JStr s) = s"
| "stringOf v = []"

definition digitChar :: "nat \<Rightarrow> char" where
  "digitChar n = char_of (48 + n)"

function decimal :: "nat \<Rightarrow> string" where
  "decimal n = (if n < 10 then [digitChar n] else decimal (n div 10) @ [digitChar (n mod 10)])"
  by pat_completeness auto
termination
  by (relation "measure (\<lambda>n. n)") auto

declare decimal.simps [simp del]

text \<open>
  The property key a value becomes in \<open>obj[v]\<close>. A number is written in decimal, which is
  what JavaScript does below \<open>10^21\<close>.
\<close>

fun propertyKey :: "jsval \<Rightarrow> string" where
  "propertyKey (JStr s) = s"
| "propertyKey (JNum n) = (if n < 0 then CHR ''-'' # decimal (nat (- n)) else decimal (nat n))"
| "propertyKey JNaN = ''NaN''"
| "propertyKey (JBool b) = (if b then ''true'' else ''false'')"
| "propertyKey JNull = ''null''"
| "propertyKey JUndefined = ''undefined''"
| "propertyKey JObject = ''[object Object]''"

text \<open>The completion of an awaited call.\<close>

datatype 'a completion = Returned 'a | Threw string

subsection \<open>\<open>encodeURIComponent\<close> and \<open>decodeURIComponent\<close>\<close>

definition hexDigit :: "nat \<Rightarrow> char" where
  "hexDigit n = (if n < 10 then char_of (48 + n) else char_of (55 + n))"

definition percent :: "nat \<Rightarrow> string" where
  "percent b = [CHR ''%'', hexDigit (b div 16), hexDigit (b mod 16)]"

text \<open>The characters \<open>encodeURIComponent\<close> leaves alone: letters, digits and \<open>-_.!~*'()\<close>.\<close>

definition uriUnescaped :: "char \<Rightarrow> bool" where
  "uriUnescaped c =
     (c \<in> set ''ABCDEFGHIJKLMNOPQRSTUVWXYZabcdefghijklmnopqrstuvwxyz0123456789''
      \<or> c \<in> set ''-_.!~*()'' \<or> c = CHR 0x27)"

text \<open>
  Any other code unit is written as the bytes of its UTF-8 encoding, each as \<open>%XX\<close>: one
  byte below 128, two bytes from 128 to 255.
\<close>

definition encodeUnit :: "char \<Rightarrow> string" where
  "encodeUnit c =
     (let n = (of_char c :: nat) in
      if uriUnescaped c then [c]
      else if n < 128 then percent n
      else percent (192 + n div 64) @ percent (128 + n mod 64))"

definition encodeURIComponent :: "string \<Rightarrow> string" where
  "encodeURIComponent s = concat (map encodeUnit s)"

fun hexValue :: "char \<Rightarrow> nat option" where
  "hexValue c =
     (let n = (of_char c :: nat) in
      if 48 \<le> n \<and> n \<le> 57 then Some (n - 48)
      else if 65 \<le> n \<and> n \<le> 70 then Some (n - 55)
      else if 97 \<le> n \<and> n \<le> 102 then Some (n - 87)
      else None)"

text \<open>A leading \<open>%XX\<close>: its byte and the rest of the text.\<close>

fun escapedByte :: "string \<Rightarrow> (nat \<times> string) option" where
  "escapedByte (p # a # b # rest) =
     (if p = CHR ''%'' then
        (case (hexValue a, hexValue b) of
           (Some x, Some y) \<Rightarrow> Some (16 * x + y, rest)
         | _ \<Rightarrow> None)
      else None)"
| "escapedByte s = None"

text \<open>
  \<open>decodeURIComponent\<close> returns a string or throws \<open>URIError\<close>. A byte sequence that
  starts with \<open>C4\<close> to \<open>F7\<close> either is malformed or encodes a code point above 255, which
  a \<open>string\<close> cannot hold: the model stops there with \<open>Beyond\<close> and does not say what
  JavaScript returns.
\<close>

datatype decoded = Decoded string | URIError | Beyond

fun prepend :: "char \<Rightarrow> decoded \<Rightarrow> decoded" where
  "prepend c (Decoded s) = Decoded (c # s)"
| "prepend c r = r"

lemma escapedByte_shorter: "escapedByte s = Some (b, rest) \<Longrightarrow> length rest < length s"
  by (induction s rule: escapedByte.induct) (auto split: if_splits option.splits)

function decodeURIComponent :: "string \<Rightarrow> decoded" where
  "decodeURIComponent [] = Decoded []"
| "decodeURIComponent (c # cs) =
     (if c \<noteq> CHR ''%'' then prepend c (decodeURIComponent cs)
      else
        (case escapedByte (c # cs) of
           None \<Rightarrow> URIError
         | Some (b, rest) \<Rightarrow>
             if b < 128 then prepend (char_of b) (decodeURIComponent rest)
             else if b < 194 then URIError
             else if 248 \<le> b then URIError
             else if 196 \<le> b then Beyond
             else
               (case escapedByte rest of
                  None \<Rightarrow> URIError
                | Some (b2, rest2) \<Rightarrow>
                    if 128 \<le> b2 \<and> b2 < 192
                    then prepend (char_of ((b - 192) * 64 + (b2 - 128))) (decodeURIComponent rest2)
                    else URIError)))"
  by pat_completeness auto
termination
  by (relation "measure length") (auto dest!: escapedByte_shorter)

subsection \<open>The world\<close>

text \<open>A dynamic rule of \<open>declarativeNetRequest\<close>, with the fields \<open>domainRule\<close> writes.\<close>

record rule =
  ruleId :: nat
  priority :: nat
  actionType :: string
  extensionPath :: string
  urlFilter :: string
  resourceTypes :: "string list"

text \<open>What \<open>chrome.permissions.contains\<close> does for one origin pattern.\<close>

datatype answer = Granted | NotGranted | Fails

text \<open>
  The state the worker reads and writes. A storage key that is absent reads as the default
  of \<open>getState\<close> (\<open>[]\<close>, \<open>0\<close>, \<open>{}\<close>); an object with domain keys is an association
  list. \<open>permissions\<close> answers one \<open>contains\<close> query. \<open>dnrRejects\<close> is the browser's
  validation of one \<open>updateDynamicRules\<close> call, given the identifiers to remove, the rules
  to add and the rules installed: \<open>None\<close> when it accepts, the error message when it
  rejects. \<open>now\<close> is what \<open>Date.now()\<close> returns; one operation reads one clock value.
\<close>

record world = coord +
  blockedDomains :: "string list"
  pausedUntilTs :: int
  pausedDomains :: "(string \<times> int) list"
  pendingGrants :: "(string \<times> int) list"
  permissions :: "string \<Rightarrow> answer"
  dynamicRules :: "rule list"
  dnrRejects :: "nat list \<Rightarrow> rule list \<Rightarrow> rule list \<Rightarrow> string option"
  alarms :: "(string \<times> int) list"
  now :: int

subsection \<open>Storage helpers\<close>

definition setGlobalPause :: "int \<Rightarrow> world \<Rightarrow> world" where
  "setGlobalPause untilTs w = w\<lparr>pausedUntilTs := (if untilTs \<noteq> 0 then untilTs else 0)\<rparr>"

definition setDomainPause :: "string \<Rightarrow> int \<Rightarrow> world \<Rightarrow> world" where
  "setDomainPause d untilTs w =
     (if untilTs \<noteq> 0 \<and> now w < untilTs
      then w\<lparr>pausedDomains := AList.update d untilTs (pausedDomains w)\<rparr>
      else w\<lparr>pausedDomains := AList.delete d (pausedDomains w)\<rparr>)"

definition clearAllDomainPauses :: "world \<Rightarrow> world" where
  "clearAllDomainPauses w = w\<lparr>pausedDomains := []\<rparr>"

text \<open>The router passes \<open>msg.domain\<close> as it came: the key is whatever the value becomes.\<close>

definition setPendingGrant :: "jsval \<Rightarrow> int \<Rightarrow> world \<Rightarrow> world" where
  "setPendingGrant d untilTs w =
     (if untilTs \<noteq> 0 \<and> now w < untilTs
      then w\<lparr>pendingGrants := AList.update (propertyKey d) untilTs (pendingGrants w)\<rparr>
      else w\<lparr>pendingGrants := AList.delete (propertyKey d) (pendingGrants w)\<rparr>)"

subsection \<open>Permission reconciliation\<close>

definition checks :: "string \<Rightarrow> string list" where
  "checks d =
     [''*://*/*'',
      ''https://*.'' @ d @ ''/*'',
      ''http://*.'' @ d @ ''/*'',
      ''https://'' @ d @ ''/*'',
      ''http://'' @ d @ ''/*'']"

text \<open>
  The loop over the patterns: the answer, and the patterns queried, in order. A query
  that fails is caught and the loop goes on.
\<close>

fun checkLoop :: "(string \<Rightarrow> answer) \<Rightarrow> string list \<Rightarrow> bool \<times> string list" where
  "checkLoop perm [] = (False, [])"
| "checkLoop perm (q # qs) =
     (case perm q of
        Granted \<Rightarrow> (True, [q])
      | NotGranted \<Rightarrow> (let r = checkLoop perm qs in (fst r, q # snd r))
      | Fails \<Rightarrow> (let r = checkLoop perm qs in (fst r, q # snd r)))"

definition hasHostAccess :: "(string \<Rightarrow> answer) \<Rightarrow> jsval \<Rightarrow> bool \<times> string list" where
  "hasHostAccess perm d =
     (if \<not> truthy d \<or> \<not> typeofString d \<or> 253 < length (stringOf d) then (False, [])
      else checkLoop perm (checks (stringOf d)))"

text \<open>\<open>m[d] && m[d] > now\<close> and \<open>m[d] && m[d] <= now\<close>\<close>

definition unexpired :: "(string \<times> int) list \<Rightarrow> int \<Rightarrow> string \<Rightarrow> bool" where
  "unexpired m t d = (case map_of m d of None \<Rightarrow> False | Some ts \<Rightarrow> ts \<noteq> 0 \<and> t < ts)"

definition expired :: "(string \<times> int) list \<Rightarrow> int \<Rightarrow> string \<Rightarrow> bool" where
  "expired m t d = (case map_of m d of None \<Rightarrow> False | Some ts \<Rightarrow> ts \<noteq> 0 \<and> ts \<le> t)"

text \<open>The loop of \<open>reconcileDomains\<close> over \<open>pending\<close>, \<open>pendingChanged\<close>, \<open>allowed\<close>, \<open>denied\<close>.\<close>

fun reconcileLoop ::
  "(string \<Rightarrow> answer) \<Rightarrow> int \<Rightarrow> string list \<Rightarrow>
   (string \<times> int) list \<times> bool \<times> string list \<times> string list \<Rightarrow>
   (string \<times> int) list \<times> bool \<times> string list \<times> string list" where
  "reconcileLoop perm t [] st = st"
| "reconcileLoop perm t (d # ds) (pending, pendingChanged, allowed, denied) =
     (let inPending = unexpired pending t d;
          pass = (inPending \<or> fst (hasHostAccess perm (JStr d)));
          allowed1 = (if pass then allowed @ [d] else allowed);
          denied1 = (if pass then denied else denied @ [d]);
          sweep = expired pending t d;
          pending1 = (if sweep then AList.delete d pending else pending);
          pendingChanged1 = (if sweep then True else pendingChanged)
      in reconcileLoop perm t ds (pending1, pendingChanged1, allowed1, denied1))"

text \<open>\<open>Array.from(new Set(xs))\<close>: the first occurrence of each element, in order.\<close>

fun addAll :: "'a list \<Rightarrow> 'a list \<Rightarrow> 'a list" where
  "addAll seen [] = seen"
| "addAll seen (x # xs) = addAll (if x \<in> set seen then seen else seen @ [x]) xs"

definition uniqSorted :: "string list \<Rightarrow> string list" where
  "uniqSorted allowed = sort (addAll [] allowed)"

definition reconcileDomains :: "string list \<Rightarrow> world \<Rightarrow> string list \<times> world" where
  "reconcileDomains domains w =
     (case reconcileLoop (permissions w) (now w) domains (pendingGrants w, False, [], []) of
        (pending, pendingChanged, allowed, denied) \<Rightarrow>
          (let w1 = (if pendingChanged then w\<lparr>pendingGrants := pending\<rparr> else w);
               w2 = (if denied \<noteq> [] then w1\<lparr>blockedDomains := uniqSorted allowed\<rparr> else w1)
           in (allowed, w2)))"

subsection \<open>Rules\<close>

definition RULE_BASE :: nat where
  "RULE_BASE = 100000"

definition domainRule :: "nat \<Rightarrow> string \<Rightarrow> rule" where
  "domainRule i d =
     \<lparr>ruleId = i, priority = 1, actionType = ''redirect'',
      extensionPath = ''/blocked.html#d='' @ encodeURIComponent d,
      urlFilter = ''||'' @ d @ ''^'',
      resourceTypes = [''main_frame'']\<rparr>"

text \<open>\<open>activeDomains.map((d, i) => domainRule(RULE_BASE + i, d))\<close>\<close>

definition desiredRules :: "string list \<Rightarrow> rule list" where
  "desiredRules activeDomains =
     map (\<lambda>(i, d). domainRule (RULE_BASE + i) d) (enumerate 0 activeDomains)"

text \<open>\<open>r.id >= RULE_BASE && r.id < RULE_BASE + 90000\<close>\<close>

definition ours :: "rule \<Rightarrow> bool" where
  "ours r = (RULE_BASE \<le> ruleId r \<and> ruleId r < RULE_BASE + 90000)"

definition activeDomains :: "int \<Rightarrow> (string \<times> int) list \<Rightarrow> int \<Rightarrow> string list \<Rightarrow> string list" where
  "activeDomains pausedUntil paused t permitted =
     (if pausedUntil \<noteq> 0 \<and> t < pausedUntil then []
      else filter (\<lambda>d. \<not> unexpired paused t d) permitted)"

text \<open>
  The first half of a pass: read the state, reconcile, filter by the pauses and compile.
  The result is \<open>desiredRules\<close> and the world after \<open>reconcileDomains\<close>.
\<close>

definition compileRules :: "world \<Rightarrow> rule list \<times> world" where
  "compileRules w =
     (case reconcileDomains (blockedDomains w) w of
        (permitted, w1) \<Rightarrow>
          (desiredRules (activeDomains (pausedUntilTs w) (pausedDomains w) (now w) permitted), w1))"

text \<open>
  \<open>updateDynamicRules\<close> removes the rules with the given identifiers and then adds the
  new rules, as one update: when the browser rejects it, nothing changes and the call throws.
\<close>

definition updateDynamicRules :: "nat list \<Rightarrow> rule list \<Rightarrow> world \<Rightarrow> unit completion \<times> world" where
  "updateDynamicRules removeRuleIds addRules w =
     (case dnrRejects w removeRuleIds addRules (dynamicRules w) of
        Some msg \<Rightarrow> (Threw msg, w)
      | None \<Rightarrow>
          (Returned (),
           w\<lparr>dynamicRules :=
               filter (\<lambda>r. ruleId r \<notin> set removeRuleIds) (dynamicRules w) @ addRules\<rparr>))"

text \<open>The body of the \<open>try\<close> block of \<open>syncRules\<close>: one reconciliation pass.\<close>

definition syncPass :: "world \<Rightarrow> unit completion \<times> world" where
  "syncPass w =
     (case compileRules w of
        (desired, w1) \<Rightarrow>
          (let existing = dynamicRules w1;
               ourIds = map ruleId (filter ours existing)
           in updateDynamicRules ourIds desired w1))"

subsection \<open>\<open>syncRules\<close>\<close>

lemma reconcileDomains_flags:
  "needsResync (snd (reconcileDomains ds w)) = needsResync w"
  "syncing (snd (reconcileDomains ds w)) = syncing w"
  by (simp_all add: reconcileDomains_def Let_def split: prod.splits)

lemma syncPass_flags:
  "needsResync (snd (syncPass w)) = needsResync w"
  "syncing (snd (syncPass w)) = syncing w"
  using reconcileDomains_flags [of "blockedDomains w" w]
  by (auto simp: syncPass_def compileRules_def updateDynamicRules_def Let_def
      split: prod.splits option.splits)

lemma syncPass_needsResync: "(r, w') = syncPass w \<Longrightarrow> needsResync w' = needsResync w"
  by (metis syncPass_flags(1) snd_conv)

text \<open>
  A call of \<open>syncRules\<close> that nothing interleaves with. When the flag is taken it only
  asks for a resync. Otherwise it runs a pass; the \<open>finally\<close> block releases the flag and,
  when a resync was asked for, calls \<open>syncRules\<close> again. An exception of the pass leaves
  through the \<open>finally\<close> block, and an exception of the call inside it replaces it.
\<close>

function syncRules :: "world \<Rightarrow> unit completion \<times> world" where
  "syncRules w =
     (case enter w of
        (False, w1) \<Rightarrow> (Returned (), w1)
      | (True, w1) \<Rightarrow>
          (case syncPass w1 of
             (r, w2) \<Rightarrow>
               (case leave w2 of
                  (False, w3) \<Rightarrow> (r, w3)
                | (True, w3) \<Rightarrow>
                    (case syncRules w3 of
                       (Threw e, w4) \<Rightarrow> (Threw e, w4)
                     | (Returned u, w4) \<Rightarrow> (r, w4)))))"
  by pat_completeness auto
termination
  by (relation "measure (\<lambda>w. if needsResync w then 1 else 0)")
    (auto simp: enter_def leave_def Let_def split: if_splits dest!: syncPass_needsResync)

declare syncRules.simps [simp del]

subsection \<open>Snooze\<close>

definition alarmsCreate :: "string \<Rightarrow> int \<Rightarrow> world \<Rightarrow> world" where
  "alarmsCreate name when w = w\<lparr>alarms := AList.update name when (alarms w)\<rparr>"

definition alarmsClear :: "string \<Rightarrow> world \<Rightarrow> world" where
  "alarmsClear name w = w\<lparr>alarms := AList.delete name (alarms w)\<rparr>"

definition startsWith :: "string \<Rightarrow> string \<Rightarrow> bool" where
  "startsWith s p = (take (length p) s = p)"

definition pauseAllForMinutes :: "int \<Rightarrow> world \<Rightarrow> unit completion \<times> world" where
  "pauseAllForMinutes m w =
     (let until = now w + m * 60000 in
      case syncRules (setGlobalPause until w) of
        (Threw e, w1) \<Rightarrow> (Threw e, w1)
      | (Returned u, w1) \<Rightarrow> (Returned (), alarmsCreate ''fg:resumeAll'' until w1))"

definition resumeAllNow :: "world \<Rightarrow> unit completion \<times> world" where
  "resumeAllNow w =
     (case syncRules (clearAllDomainPauses (setGlobalPause 0 w)) of
        (Threw e, w1) \<Rightarrow> (Threw e, w1)
      | (Returned u, w1) \<Rightarrow>
          (let w2 = alarmsClear ''fg:resumeAll'' w1 in
           (Returned (),
            fold (\<lambda>(name, when) v. if startsWith name ''fg:resume:'' then alarmsClear name v else v)
              (alarms w2) w2)))"

definition pauseDomainForMinutes :: "jsval \<Rightarrow> int \<Rightarrow> world \<Rightarrow> unit completion \<times> world" where
  "pauseDomainForMinutes d m w =
     (if \<not> truthy d \<or> \<not> typeofString d then (Returned (), w)
      else
        (let until = now w + m * 60000 in
         case syncRules (setDomainPause (stringOf d) until w) of
           (Threw e, w1) \<Rightarrow> (Threw e, w1)
         | (Returned u, w1) \<Rightarrow>
             (Returned (), alarmsCreate (''fg:resume:'' @ stringOf d) until w1)))"

definition resumeDomainNow :: "jsval \<Rightarrow> world \<Rightarrow> unit completion \<times> world" where
  "resumeDomainNow d w =
     (if \<not> truthy d \<or> \<not> typeofString d then (Returned (), w)
      else
        (case syncRules (setDomainPause (stringOf d) 0 w) of
           (Threw e, w1) \<Rightarrow> (Threw e, w1)
         | (Returned u, w1) \<Rightarrow> (Returned (), alarmsClear (''fg:resume:'' @ stringOf d) w1)))"

subsection \<open>The \<open>onStartup\<close> listener\<close>

text \<open>The body of the loop over \<open>Object.entries(pausedDomains)\<close>.\<close>

definition rearm :: "int \<Rightarrow> string \<times> int \<Rightarrow> world \<Rightarrow> world" where
  "rearm t = (\<lambda>(d, ts) v. if ts \<noteq> 0 \<and> t < ts then alarmsCreate (''fg:resume:'' @ d) ts v else v)"

definition onStartup :: "world \<Rightarrow> unit completion \<times> world" where
  "onStartup w =
     (let t = now w;
          w1 = (if pausedUntilTs w \<noteq> 0 \<and> t < pausedUntilTs w
                then alarmsCreate ''fg:resumeAll'' (pausedUntilTs w) w else w);
          w2 = fold (rearm t) (pausedDomains w) w1
      in syncRules w2)"

subsection \<open>The \<open>onAlarm\<close> listener\<close>

text \<open>The name of the alarm that fired; \<open>""\<close> when it has none.\<close>

definition onAlarm :: "string \<Rightarrow> world \<Rightarrow> unit completion \<times> world" where
  "onAlarm name w =
     (if name = ''fg:resumeAll'' then resumeAllNow w
      else if startsWith name ''fg:resume:'' then
        (let d = drop (length ''fg:resume:'') name in
         if d \<noteq> [] then resumeDomainNow (JStr d) w else (Returned (), w))
      else (Returned (), w))"

subsection \<open>The message handler\<close>

text \<open>
  A message with its three fields; a field that is absent is \<open>undefined\<close>, and so is every
  field of a message that is \<open>null\<close> or not an object (\<open>msg?.cmd\<close>).
\<close>

record message =
  cmd :: jsval
  domain :: jsval
  minutes :: jsval

text \<open>\<open>{ ok: true }\<close> has no \<open>error\<close>; \<open>{ ok: false, error: msg }\<close> has one.\<close>

record response =
  ok :: bool
  error :: "string option"

definition succeeded :: response where
  "succeeded = \<lparr>ok = True, error = None\<rparr>"

definition failed :: "string \<Rightarrow> response" where
  "failed msg = \<lparr>ok = False, error = Some msg\<rparr>"

text \<open>The \<open>catch\<close> of the handler: an exception becomes \<open>{ ok: false, error: error.message }\<close>.\<close>

definition respond :: "unit completion \<times> world \<Rightarrow> response \<times> world" where
  "respond p = (case p of (Returned u, w) \<Rightarrow> (succeeded, w) | (Threw e, w) \<Rightarrow> (failed e, w))"

definition onMessage :: "message \<Rightarrow> world \<Rightarrow> response \<times> world" where
  "onMessage msg w =
     (if cmd msg = JStr ''syncRules'' then respond (syncRules w)
      else if cmd msg = JStr ''pauseForMinutes'' then
        (if positiveNumber (minutes msg)
         then respond (pauseAllForMinutes (numberOf (minutes msg)) w)
         else (failed ''Invalid minutes'', w))
      else if cmd msg = JStr ''resumeNow'' then respond (resumeAllNow w)
      else if cmd msg = JStr ''pauseDomain'' then
        (if truthy (domain msg) \<and> positiveNumber (minutes msg)
         then respond (pauseDomainForMinutes (domain msg) (numberOf (minutes msg)) w)
         else (failed ''Invalid domain or minutes'', w))
      else if cmd msg = JStr ''resumeDomain'' then
        (if truthy (domain msg) then respond (resumeDomainNow (domain msg) w)
         else (failed ''Invalid domain'', w))
      else if cmd msg = JStr ''markPending'' then
        (if truthy (domain msg)
         then (succeeded, setPendingGrant (domain msg) (now w + 15000) w)
         else (failed ''Invalid domain'', w))
      else if cmd msg = JStr ''markGranted'' then
        (if truthy (domain msg)
         then respond (syncRules (setPendingGrant (domain msg) 0 w))
         else (failed ''Invalid domain'', w))
      else (failed ''Unknown command'', w))"

subsection \<open>The blocked page: \<open>getDomainFromHash\<close>\<close>

text \<open>
  \<open>location.hash\<close> of the page a rule redirects to: the target from its first \<open>#\<close>. The
  encoded domain has no character the browser would rewrite in a fragment.
\<close>

definition locationHash :: "string \<Rightarrow> string" where
  "locationHash url = dropWhile (\<lambda>c. c \<noteq> CHR ''#'') url"

text \<open>The first match of \<open>/[#&]d=([^&]+)/\<close>: its group.\<close>

fun matchD :: "string \<Rightarrow> string option" where
  "matchD [] = None"
| "matchD (c # cs) =
     (if (c = CHR ''#'' \<or> c = CHR ''&'') \<and> take 2 cs = ''d=''
         \<and> takeWhile (\<lambda>x. x \<noteq> CHR ''&'') (drop 2 cs) \<noteq> []
      then Some (takeWhile (\<lambda>x. x \<noteq> CHR ''&'') (drop 2 cs))
      else matchD cs)"

text \<open>\<open>.replace(/^www\./i, "")\<close>\<close>

fun stripWww :: "string \<Rightarrow> string" where
  "stripWww (a # b # c # d # rest) =
     (if (a = CHR ''w'' \<or> a = CHR ''W'') \<and> (b = CHR ''w'' \<or> b = CHR ''W'')
         \<and> (c = CHR ''w'' \<or> c = CHR ''W'') \<and> d = CHR ''.''
      then rest else a # b # c # d # rest)"
| "stripWww s = s"

text \<open>
  \<open>toLowerCase\<close> on code units below 256: \<open>A\<close> to \<open>Z\<close>, and the capital letters
  \<open>C0\<close> to \<open>DE\<close> without the multiplication sign \<open>D7\<close>.
\<close>

definition lowerUnit :: "char \<Rightarrow> char" where
  "lowerUnit c =
     (let n = (of_char c :: nat) in
      if (65 \<le> n \<and> n \<le> 90) \<or> (192 \<le> n \<and> n \<le> 222 \<and> n \<noteq> 215) then char_of (n + 32) else c)"

definition toLowerCase :: "string \<Rightarrow> string" where
  "toLowerCase s = map lowerUnit s"

text \<open>
  The function returns the domain, or \<open>""\<close> when nothing matches. It does not catch the
  \<open>URIError\<close> of \<open>decodeURIComponent\<close>.
\<close>

datatype extracted = Hostname string | UriError | BeyondModel

definition getDomainFromHash :: "string \<Rightarrow> extracted" where
  "getDomainFromHash hash =
     (case matchD hash of
        None \<Rightarrow> Hostname []
      | Some g \<Rightarrow>
          (case decodeURIComponent g of
             Decoded s \<Rightarrow> Hostname (toLowerCase (stripWww s))
           | URIError \<Rightarrow> UriError
           | Beyond \<Rightarrow> BeyondModel))"

subsection \<open>Notions used in the statements\<close>

text \<open>
  The patterns \<open>hasHostAccess\<close> is expected to query: those before the first granted one,
  and that one.
\<close>

definition queried :: "(string \<Rightarrow> answer) \<Rightarrow> string list \<Rightarrow> string list" where
  "queried perm qs =
     takeWhile (\<lambda>q. perm q \<noteq> Granted) qs @ take 1 (dropWhile (\<lambda>q. perm q \<noteq> Granted) qs)"

text \<open>A domain with an unexpired pending grant, or one the permission check accepts.\<close>

definition authorized :: "world \<Rightarrow> string \<Rightarrow> bool" where
  "authorized w d =
     (unexpired (pendingGrants w) (now w) d \<or> fst (hasHostAccess (permissions w) (JStr d)))"

text \<open>
  Permissions for the examples: in \<open>examplePerm\<close> the wildcard query fails and one origin
  of \<open>a.com\<close> is granted; in \<open>grantedAB\<close> both \<open>a.com\<close> and \<open>b.com\<close> are granted with
  their subdomains. In \<open>exampleWorld\<close> the stored list is not sorted and \<open>x.com\<close> has
  no permission.
\<close>

definition examplePerm :: "string \<Rightarrow> answer" where
  "examplePerm q = (if q = ''*://*/*'' then Fails
                    else if q = ''https://a.com/*'' then Granted else NotGranted)"

definition grantedAB :: "string \<Rightarrow> answer" where
  "grantedAB q = (if q = ''https://*.a.com/*'' \<or> q = ''https://*.b.com/*''
                  then Granted else NotGranted)"

definition exampleWorld :: world where
  "exampleWorld =
     \<lparr>syncing = False, needsResync = False,
      blockedDomains = [''b.com'', ''a.com'', ''x.com''],
      pausedUntilTs = 0, pausedDomains = [], pendingGrants = [],
      permissions = grantedAB, dynamicRules = [],
      dnrRejects = (\<lambda>removeRuleIds addRules existing. None),
      alarms = [], now = 1000\<rparr>"

text \<open>
  The rules outside the reserved range are still installed, in their order; rules may
  have been added after them.
\<close>

definition foreignKept :: "world \<Rightarrow> world \<Rightarrow> bool" where
  "foreignKept w w' =
     (\<exists>extra. filter (\<lambda>r. \<not> ours r) (dynamicRules w') =
        filter (\<lambda>r. \<not> ours r) (dynamicRules w) @ extra)"

text \<open>
  The example world with two rules installed: one of another subsystem, and a stale one
  of this subsystem.
\<close>

definition foreignRule :: rule where
  "foreignRule = \<lparr>ruleId = 7, priority = 2, actionType = ''block'', extensionPath = [],
     urlFilter = ''ads'', resourceTypes = [''script'']\<rparr>"

definition busyWorld :: world where
  "busyWorld = exampleWorld\<lparr>dynamicRules := [foreignRule, domainRule 100005 ''old.com'']\<rparr>"

text \<open>The same world under a global pause that has not expired.\<close>

definition pausedWorld :: world where
  "pausedWorld = busyWorld\<lparr>pausedUntilTs := 5000, pausedDomains := [(''a.com'', 1)]\<rparr>"

text \<open>The example world with its stored list sorted.\<close>

definition tidyWorld :: world where
  "tidyWorld = exampleWorld\<lparr>blockedDomains := [''a.com'', ''b.com'', ''x.com'']\<rparr>"

text \<open>
  A world at startup: a global pause and the pause of \<open>d.example\<close> have not expired, the
  pause of \<open>old.example\<close> has, and no alarm is armed.
\<close>

definition restartWorld :: world where
  "restartWorld = exampleWorld\<lparr>pausedUntilTs := 5000,
     pausedDomains := [(''d.example'', 301000), (''old.example'', 500)]\<rparr>"

text \<open>The commands of the message handler.\<close>

definition commands :: "string list" where
  "commands = [''syncRules'', ''pauseForMinutes'', ''resumeNow'', ''pauseDomain'',
     ''resumeDomain'', ''markPending'', ''markGranted'']"

text \<open>\<open>ts\<close> does not expire after the clock value \<open>t\<close> and up to the clock value \<open>t'\<close>.\<close>

definition noExpiry :: "int \<Rightarrow> int \<Rightarrow> int \<Rightarrow> bool" where
  "noExpiry t t' ts = (\<not> (t < ts \<and> ts \<le> t'))"

text \<open>
  The sorted example world with an expired pause of \<open>a.com\<close>, a pause of \<open>b.com\<close> that
  lasts, and an expired pending grant of \<open>x.com\<close>.
\<close>

definition laterWorld :: world where
  "laterWorld = tidyWorld\<lparr>pausedDomains := [(''a.com'', 900), (''b.com'', 9000)],
     pendingGrants := [(''x.com'', 500)]\<rparr>"

text \<open>The sorted example world under a global pause that expires half a second later.\<close>

definition expiringWorld :: world where
  "expiringWorld = tidyWorld\<lparr>pausedUntilTs := 1500\<rparr>"

section \<open>Coalescing of requests\<close>

lemma coherent_idle: "coherent idle"
  by (simp add: coherent_def idle_def)

lemma coherent_request: "coherent t \<Longrightarrow> coherent (request t)"
  by (auto simp: coherent_def request_def enter_def)

lemma coherent_complete: "coherent t \<Longrightarrow> coherent (complete t)"
  by (auto simp: coherent_def complete_def leave_def request_def enter_def Let_def)

lemma coherent_step: "coherent t \<Longrightarrow> coherent (step t e)"
  by (cases e) (simp_all add: coherent_request coherent_complete)

lemma coherent_foldl: "coherent t \<Longrightarrow> coherent (foldl step t evs)"
  by (induction evs arbitrary: t) (simp_all add: coherent_step)

lemma coherent_run: "coherent (run evs idle)"
  by (simp add: run_def coherent_foldl coherent_idle)

lemma requests_while_syncing:
  "syncing t \<Longrightarrow> foldl step t (replicate n Request) =
     (if n = 0 then t else t\<lparr>needsResync := True\<rparr>)"
proof (induction n arbitrary: t)
  case 0
  then show ?case by simp
next
  case (Suc n)
  have "syncing (request t)" and "request t = t\<lparr>needsResync := True\<rparr>"
    using Suc.prems by (simp_all add: request_def enter_def)
  then show ?case
    using Suc.IH [of "request t"] by simp
qed

text \<open>
  C1. At most one pass is in flight after any sequence of requests and completions. When
  \<open>n \<ge> 1\<close> requests arrive while a pass is in flight, none of them starts a pass; the end
  of the pass in flight starts exactly one further pass, which therefore begins after the
  last of the requests; and the end of that pass leaves the coordinator idle, with one
  pass more than before, not \<open>n\<close>.
\<close>

theorem syncRules_coalesces:
  assumes "t = run evs idle" and "inFlight t = 1" and "1 \<le> n"
  shows "finished (run evs' idle) \<le> started (run evs' idle) \<and>
    inFlight (run evs' idle) \<le> 1 \<and>
    started (run (replicate n Request) t) = started t \<and>
    inFlight (run (replicate n Request) t) = 1 \<and>
    started (run (replicate n Request @ [Complete]) t) = started t + 1 \<and>
    inFlight (run (replicate n Request @ [Complete]) t) = 1 \<and>
    started (run (replicate n Request @ [Complete, Complete]) t) = started t + 1 \<and>
    inFlight (run (replicate n Request @ [Complete, Complete]) t) = 0 \<and>
    \<not> syncing (run (replicate n Request @ [Complete, Complete]) t) \<and>
    \<not> needsResync (run (replicate n Request @ [Complete, Complete]) t)"
proof -
  have excl: "finished (run evs' idle) \<le> started (run evs' idle)"
    "inFlight (run evs' idle) \<le> 1"
    using coherent_run [of evs'] by (simp_all add: coherent_def inFlight_def)
  have coh: "coherent t"
    using assms(1) coherent_run by simp
  with assms(2) have syn: "syncing t" and cnt: "started t = finished t + 1"
    by (auto simp: coherent_def inFlight_def split: if_splits)
  from assms(3) have n: "n \<noteq> 0" by simp
  have r: "run (replicate n Request) t = t\<lparr>needsResync := True\<rparr>"
    using requests_while_syncing [OF syn, of n] n by (simp add: run_def)
  have c1: "run (replicate n Request @ [Complete]) t =
      t\<lparr>syncing := True, needsResync := False, started := started t + 1,
        finished := finished t + 1\<rparr>"
    using r syn cnt
    by (simp add: run_def complete_def leave_def request_def enter_def)
  have "run (replicate n Request @ [Complete, Complete]) t =
      complete (run (replicate n Request @ [Complete]) t)"
    by (simp add: run_def)
  then have c2: "run (replicate n Request @ [Complete, Complete]) t =
      t\<lparr>syncing := False, needsResync := False, started := started t + 1,
        finished := finished t + 2\<rparr>"
    using cnt by (simp add: c1 complete_def leave_def)
  show ?thesis
    using excl cnt by (simp add: r c1 c2 inFlight_def)
qed

theorem syncRules_coalesces_witness:
  "inFlight (run [Request] idle) = 1 \<and> (1::nat) \<le> 3 \<and>
   inFlight (run [Request, Request, Complete, Request] idle) \<le> 1 \<and>
   started (run (replicate 3 Request @ [Complete]) (run [Request] idle)) = 2 \<and>
   started (run (replicate 3 Request @ [Complete, Complete]) (run [Request] idle)) = 2 \<and>
   inFlight (run (replicate 3 Request @ [Complete, Complete]) (run [Request] idle)) = 0"
proof -
  have s: "started (run [Request] idle) = 1" and f: "inFlight (run [Request] idle) = 1"
    by (simp_all add: run_def request_def enter_def idle_def inFlight_def)
  show ?thesis
    using syncRules_coalesces [OF refl f, of 3 "[Request, Request, Complete, Request]"] s f
    by simp
qed

section \<open>The permission check\<close>

lemma checkLoop_result:
  "checkLoop perm qs = ((\<exists>q \<in> set qs. perm q = Granted), queried perm qs)"
  by (induction qs) (auto simp: queried_def Let_def split: answer.splits)

text \<open>
  C6. A domain that is missing, not a string or longer than 253 characters is denied and
  no pattern is queried. For any other domain the first pattern is the wildcard
  \<open>*://*/*\<close>; the answer is whether some pattern is granted; and the patterns queried are
  those before the first granted one and that one, so that a query that is not granted
  or fails is followed by the next pattern. The function returns a boolean in every case.
\<close>

theorem hasHostAccess_checks:
  "((\<not> truthy d \<or> \<not> typeofString d \<or> 253 < length (stringOf d)) \<longrightarrow>
      hasHostAccess perm d = (False, [])) \<and>
   (d = JStr s \<and> s \<noteq> [] \<and> length s \<le> 253 \<longrightarrow>
      hd (checks s) = ''*://*/*'' \<and>
      fst (hasHostAccess perm d) = (\<exists>q \<in> set (checks s). perm q = Granted) \<and>
      snd (hasHostAccess perm d) = queried perm (checks s))"
  by (auto simp: hasHostAccess_def checkLoop_result) (simp_all add: checks_def)

theorem hasHostAccess_checks_witness:
  "hasHostAccess examplePerm JUndefined = (False, []) \<and>
   hasHostAccess examplePerm (JNum 7) = (False, []) \<and>
   hasHostAccess examplePerm (JStr (replicate 254 (CHR ''a''))) = (False, []) \<and>
   hasHostAccess examplePerm (JStr ''a.com'') =
     (True, [''*://*/*'', ''https://*.a.com/*'', ''http://*.a.com/*'', ''https://a.com/*''])"
  using hasHostAccess_checks [of JUndefined examplePerm "''a.com''"]
    hasHostAccess_checks [of "JNum 7" examplePerm "''a.com''"]
    hasHostAccess_checks [of "JStr (replicate 254 (CHR ''a''))" examplePerm "''a.com''"]
    hasHostAccess_checks [of "JStr ''a.com''" examplePerm "''a.com''"]
  by (simp add: checks_def queried_def examplePerm_def prod_eq_iff)

section \<open>Reconciliation against the permissions\<close>

lemma unexpired_delete:
  "expired m t k \<Longrightarrow> unexpired (AList.delete k m) t d = unexpired m t d"
  by (auto simp: expired_def unexpired_def delete_conv split: option.splits)

lemma reconcileLoop_result:
  "reconcileLoop perm t ds (pending, changed, allowed, denied) = (pending', changed', allowed', denied')
   \<Longrightarrow> allowed' = allowed @ filter (\<lambda>d. unexpired pending t d \<or> fst (hasHostAccess perm (JStr d))) ds
     \<and> denied' = denied @ filter (\<lambda>d. \<not> (unexpired pending t d \<or> fst (hasHostAccess perm (JStr d)))) ds
     \<and> (\<forall>d. unexpired pending' t d = unexpired pending t d)
     \<and> set pending' \<subseteq> set pending"
proof (induction ds arbitrary: pending changed allowed denied)
  case Nil
  then show ?case by simp
next
  case (Cons d ds)
  let ?p1 = "if expired pending t d then AList.delete d pending else pending"
  have same: "\<And>x. unexpired ?p1 t x = unexpired pending t x"
    by (simp add: unexpired_delete)
  have sub: "set ?p1 \<subseteq> set pending"
    by (auto simp: AList.delete_eq)
  from Cons.prems obtain c1 a1 d1 where
    step: "reconcileLoop perm t ds (?p1, c1, a1, d1) = (pending', changed', allowed', denied')"
    and a1: "a1 = (if unexpired pending t d \<or> fst (hasHostAccess perm (JStr d))
                   then allowed @ [d] else allowed)"
    and d1: "d1 = (if unexpired pending t d \<or> fst (hasHostAccess perm (JStr d))
                   then denied else denied @ [d])"
    by (simp add: Let_def)
  from Cons.IH [OF step] sub show ?case
    by (auto simp: a1 d1 same)
qed

lemma set_addAll: "set (addAll seen xs) = set seen \<union> set xs"
  by (induction xs arbitrary: seen) auto

lemma distinct_addAll: "distinct seen \<Longrightarrow> distinct (addAll seen xs)"
  by (induction xs arbitrary: seen) auto

lemma uniqSorted_props:
  "sorted (uniqSorted xs)" "distinct (uniqSorted xs)" "set (uniqSorted xs) = set xs"
  by (simp_all add: uniqSorted_def set_addAll distinct_addAll)

lemma reconcileDomains_result:
  "fst (reconcileDomains ds w) = filter (authorized w) ds"
  "blockedDomains (snd (reconcileDomains ds w)) =
     (if \<forall>d \<in> set ds. authorized w d then blockedDomains w
      else uniqSorted (filter (authorized w) ds))"
  "unexpired (pendingGrants (snd (reconcileDomains ds w))) (now w) x =
     unexpired (pendingGrants w) (now w) x"
  "snd (reconcileDomains ds w) =
     w\<lparr>blockedDomains := blockedDomains (snd (reconcileDomains ds w)),
       pendingGrants := pendingGrants (snd (reconcileDomains ds w))\<rparr>"
  "set (pendingGrants (snd (reconcileDomains ds w))) \<subseteq> set (pendingGrants w)"
proof -
  obtain p c a d where
    loop: "reconcileLoop (permissions w) (now w) ds (pendingGrants w, False, [], []) = (p, c, a, d)"
    by (metis prod_cases4)
  from reconcileLoop_result [OF loop] have
    a: "a = filter (authorized w) ds" and d: "d = filter (\<lambda>x. \<not> authorized w x) ds"
    and p: "\<And>x. unexpired p (now w) x = unexpired (pendingGrants w) (now w) x"
    and ps: "set p \<subseteq> set (pendingGrants w)"
    by (simp_all add: authorized_def [abs_def])
  show "fst (reconcileDomains ds w) = filter (authorized w) ds"
    by (simp add: reconcileDomains_def loop a Let_def)
  have "(d = []) = (\<forall>x \<in> set ds. authorized w x)"
    by (auto simp: d filter_empty_conv)
  then show "blockedDomains (snd (reconcileDomains ds w)) =
     (if \<forall>d \<in> set ds. authorized w d then blockedDomains w
      else uniqSorted (filter (authorized w) ds))"
    by (simp add: reconcileDomains_def loop a Let_def)
  show "unexpired (pendingGrants (snd (reconcileDomains ds w))) (now w) x =
     unexpired (pendingGrants w) (now w) x"
    by (simp add: reconcileDomains_def loop Let_def p)
  show "snd (reconcileDomains ds w) =
     w\<lparr>blockedDomains := blockedDomains (snd (reconcileDomains ds w)),
       pendingGrants := pendingGrants (snd (reconcileDomains ds w))\<rparr>"
    by (simp add: reconcileDomains_def loop Let_def)
  show "set (pendingGrants (snd (reconcileDomains ds w))) \<subseteq> set (pendingGrants w)"
    using ps by (simp add: reconcileDomains_def loop Let_def)
qed

text \<open>
  C3. \<open>reconcileDomains\<close> returns the declared domains that have an unexpired pending
  grant or pass the permission check, in their order. When a declared domain is denied,
  the stored \<open>blockedDomains\<close> becomes the sorted list, without duplicates, of the domains
  returned, so no denied domain stays in it.
\<close>

theorem reconcileDomains_filters:
  "fst (reconcileDomains ds w) = filter (authorized w) ds \<and>
   ((\<exists>d \<in> set ds. \<not> authorized w d) \<longrightarrow>
      blockedDomains (snd (reconcileDomains ds w)) = uniqSorted (fst (reconcileDomains ds w)) \<and>
      sorted (blockedDomains (snd (reconcileDomains ds w))) \<and>
      distinct (blockedDomains (snd (reconcileDomains ds w))) \<and>
      set (blockedDomains (snd (reconcileDomains ds w))) = {d \<in> set ds. authorized w d} \<and>
      (\<forall>d \<in> set ds. \<not> authorized w d \<longrightarrow> d \<notin> set (blockedDomains (snd (reconcileDomains ds w)))))"
  by (auto simp: reconcileDomains_result(1,2) uniqSorted_props)

lemma authorized_example:
  "authorized exampleWorld ''a.com''" "authorized exampleWorld ''b.com''"
  "\<not> authorized exampleWorld ''x.com''"
  by (simp_all add: authorized_def exampleWorld_def unexpired_def hasHostAccess_def
      checks_def grantedAB_def)

theorem reconcileDomains_filters_witness:
  "\<not> authorized exampleWorld ''x.com'' \<and>
   fst (reconcileDomains [''b.com'', ''a.com'', ''x.com''] exampleWorld) = [''b.com'', ''a.com''] \<and>
   blockedDomains (snd (reconcileDomains [''b.com'', ''a.com'', ''x.com''] exampleWorld)) =
     [''a.com'', ''b.com'']"
  using reconcileDomains_filters [of "[''b.com'', ''a.com'', ''x.com'']" exampleWorld]
  by (simp add: authorized_example uniqSorted_def)

section \<open>One pass\<close>

lemma reconcileDomains_fields:
  "pausedUntilTs (snd (reconcileDomains ds w)) = pausedUntilTs w"
  "pausedDomains (snd (reconcileDomains ds w)) = pausedDomains w"
  "permissions (snd (reconcileDomains ds w)) = permissions w"
  "dynamicRules (snd (reconcileDomains ds w)) = dynamicRules w"
  "dnrRejects (snd (reconcileDomains ds w)) = dnrRejects w"
  "alarms (snd (reconcileDomains ds w)) = alarms w"
  "now (snd (reconcileDomains ds w)) = now w"
  by (simp_all add: reconcileDomains_def Let_def split: prod.splits)

lemma compileRules_snd: "snd (compileRules w) = snd (reconcileDomains (blockedDomains w) w)"
  by (simp add: compileRules_def split: prod.splits)

lemma compileRules_fst:
  "fst (compileRules w) =
     desiredRules (activeDomains (pausedUntilTs w) (pausedDomains w) (now w)
       (filter (authorized w) (blockedDomains w)))"
  using reconcileDomains_result(1) [of "blockedDomains w" w]
  by (cases "reconcileDomains (blockedDomains w) w") (simp add: compileRules_def)

lemma ours_filter:
  "filter (\<lambda>r. ruleId r \<notin> ruleId ` {x \<in> set rs. ours x}) rs = filter (\<lambda>r. \<not> ours r) rs"
  by (rule filter_cong) (auto simp: ours_def)

lemma syncPass_rules:
  "(fst (syncPass w) = Returned () \<and>
      dynamicRules (snd (syncPass w)) = filter (\<lambda>r. \<not> ours r) (dynamicRules w) @ fst (compileRules w))
   \<or> ((\<exists>e. fst (syncPass w) = Threw e) \<and> dynamicRules (snd (syncPass w)) = dynamicRules w)"
proof -
  obtain desired w1 where c: "compileRules w = (desired, w1)"
    by (cases "compileRules w")
  then have w1: "dynamicRules w1 = dynamicRules w"
    using compileRules_snd [of w] by (simp add: reconcileDomains_fields)
  show ?thesis
    by (simp add: syncPass_def c updateDynamicRules_def Let_def w1 ours_filter split: option.splits)
qed

lemma syncPass_fst:
  "fst (syncPass w) =
     (case dnrRejects w (map ruleId (filter ours (dynamicRules w))) (fst (compileRules w))
             (dynamicRules w) of
        None \<Rightarrow> Returned () | Some e \<Rightarrow> Threw e)"
  using compileRules_snd [of w]
  by (auto simp: syncPass_def updateDynamicRules_def Let_def reconcileDomains_fields
      split: prod.splits option.splits)

lemma syncPass_alarms: "alarms (snd (syncPass w)) = alarms w"
  using compileRules_snd [of w]
  by (auto simp: syncPass_def updateDynamicRules_def Let_def reconcileDomains_fields
      split: prod.splits option.splits)

lemma length_desiredRules: "length (desiredRules ds) = length ds"
  by (simp add: desiredRules_def)

lemma desiredRules_nth:
  "i < length ds \<Longrightarrow> desiredRules ds ! i = domainRule (RULE_BASE + i) (ds ! i)"
  by (simp add: desiredRules_def nth_enumerate_eq)

lemma ruleId_desiredRules: "map ruleId (desiredRules ds) = [RULE_BASE ..< RULE_BASE + length ds]"
  by (rule nth_equalityI) (simp_all add: length_desiredRules desiredRules_nth domainRule_def)

lemma ours_desiredRules:
  "length ds \<le> 90000 \<Longrightarrow> filter ours (desiredRules ds) = desiredRules ds"
proof -
  assume n: "length ds \<le> 90000"
  have "\<forall>r \<in> set (desiredRules ds). ours r"
  proof
    fix r assume "r \<in> set (desiredRules ds)"
    then have "ruleId r \<in> set (map ruleId (desiredRules ds))" by simp
    then show "ours r" using n by (auto simp: ruleId_desiredRules ours_def)
  qed
  then show ?thesis by simp
qed

section \<open>A relation kept by \<open>syncRules\<close>\<close>

text \<open>
  Whatever a pass and the two flag updates keep, \<open>syncRules\<close> keeps: by induction along
  its own recursion.
\<close>

lemma syncRules_rel:
  assumes trans: "\<And>a b c. R a b \<Longrightarrow> R b c \<Longrightarrow> R a c"
    and flag1: "\<And>w a. R w (w\<lparr>syncing := a\<rparr>)"
    and flag2: "\<And>w a. R w (w\<lparr>needsResync := a\<rparr>)"
    and pass: "\<And>w. R w (snd (syncPass w))"
  shows "R w (snd (syncRules w))"
proof (induction w rule: syncRules.induct)
  case (1 w)
  show ?case
  proof (cases "syncing w")
    case True
    then show ?thesis
      by (simp add: syncRules.simps [of w] enter_def flag2)
  next
    case False
    let ?w1 = "w\<lparr>syncing := True\<rparr>"
    obtain r w2 where p: "syncPass ?w1 = (r, w2)" by (cases "syncPass ?w1")
    have r2: "R w w2"
      using trans [OF flag1 [of w True] pass [of ?w1]] p by simp
    let ?w3 = "w2\<lparr>syncing := False\<rparr>"
    have r3: "R w ?w3" using trans [OF r2 flag1] .
    show ?thesis
    proof (cases "needsResync w2")
      case nr: False
      then show ?thesis
        using False p r3 by (simp add: syncRules.simps [of w] enter_def leave_def)
    next
      case nr: True
      let ?w4 = "w2\<lparr>syncing := False, needsResync := False\<rparr>"
      have e: "enter w = (True, ?w1)" using False by (simp add: enter_def)
      have l: "leave w2 = (True, ?w4)" using nr by (simp add: leave_def)
      have ih: "R ?w4 (snd (syncRules ?w4))"
        using "1.IH" [OF e [symmetric] HOL.refl p [symmetric] l [symmetric] HOL.refl] .
      have r4: "R w ?w4" using trans [OF r3 flag2 [of ?w3 False]] by simp
      have "snd (syncRules w) = snd (syncRules ?w4)"
        by (simp add: syncRules.simps [of w] e p l split: prod.splits completion.splits)
      then show ?thesis
        using trans [OF r4 ih] by simp
    qed
  qed
qed

section \<open>The reserved range\<close>

lemma foreignKept_same: "dynamicRules w' = dynamicRules w \<Longrightarrow> foreignKept w w'"
  by (simp add: foreignKept_def)

lemma foreignKept_trans: "foreignKept a b \<Longrightarrow> foreignKept b c \<Longrightarrow> foreignKept a c"
  by (auto simp: foreignKept_def)

lemma foreignKept_syncPass: "foreignKept w (snd (syncPass w))"
  using syncPass_rules [of w] by (auto simp: foreignKept_def)

lemma foreignKept_syncRules: "foreignKept w (snd (syncRules w))"
  by (rule syncRules_rel [where R = foreignKept])
    (auto intro: foreignKept_trans foreignKept_same foreignKept_syncPass)

lemma dynamicRules_clears:
  "dynamicRules (fold (\<lambda>(name, when) v. if startsWith name p then alarmsClear name v else v) xs w)
     = dynamicRules w"
  by (induction xs arbitrary: w) (auto simp: alarmsClear_def)

lemma dynamicRules_creates: "dynamicRules (fold (rearm t) xs w) = dynamicRules w"
  by (induction xs arbitrary: w) (auto simp: rearm_def alarmsCreate_def)

lemma setGlobalPause_eq: "setGlobalPause u w = w\<lparr>pausedUntilTs := u\<rparr>"
  by (simp add: setGlobalPause_def)

lemma kept_after_sync:
  "syncRules v = (r, w1) \<Longrightarrow> dynamicRules v = dynamicRules w \<Longrightarrow> dynamicRules w2 = dynamicRules w1
   \<Longrightarrow> foreignKept w w2"
  using foreignKept_syncRules [of v] by (simp add: foreignKept_def)

lemma kept_after_sync_snd:
  "dynamicRules v = dynamicRules w \<Longrightarrow> foreignKept w (snd (syncRules v))"
  using foreignKept_syncRules [of v] by (simp add: foreignKept_def)

lemma foreignKept_pauseAll: "foreignKept w (snd (pauseAllForMinutes m w))"
  by (auto simp: pauseAllForMinutes_def Let_def setGlobalPause_eq alarmsCreate_def
      split: prod.splits completion.splits intro: kept_after_sync)

lemma foreignKept_resumeAll: "foreignKept w (snd (resumeAllNow w))"
  by (auto simp: resumeAllNow_def Let_def setGlobalPause_eq clearAllDomainPauses_def
      alarmsClear_def dynamicRules_clears
      split: prod.splits completion.splits intro: kept_after_sync)

lemma foreignKept_pauseDomain: "foreignKept w (snd (pauseDomainForMinutes d m w))"
  by (auto simp: pauseDomainForMinutes_def Let_def setDomainPause_def alarmsCreate_def
      foreignKept_same
      split: prod.splits completion.splits intro: kept_after_sync)

lemma foreignKept_resumeDomain: "foreignKept w (snd (resumeDomainNow d w))"
  by (auto simp: resumeDomainNow_def Let_def setDomainPause_def alarmsClear_def
      foreignKept_same
      split: prod.splits completion.splits intro: kept_after_sync)

lemma snd_respond: "snd (respond p) = snd p"
  by (simp add: respond_def split: prod.splits completion.splits)

lemma foreignKept_onMessage: "foreignKept w (snd (onMessage msg w))"
  by (auto simp: onMessage_def snd_respond foreignKept_syncRules foreignKept_pauseAll
      foreignKept_resumeAll foreignKept_pauseDomain foreignKept_resumeDomain
      foreignKept_same setPendingGrant_def kept_after_sync_snd)

lemma foreignKept_onStartup: "foreignKept w (snd (onStartup w))"
  by (simp add: onStartup_def Let_def alarmsCreate_def dynamicRules_creates kept_after_sync_snd)

lemma foreignKept_onAlarm: "foreignKept w (snd (onAlarm name w))"
  by (simp add: onAlarm_def Let_def foreignKept_resumeAll foreignKept_resumeDomain
      foreignKept_same)

text \<open>
  C5. A pass asks for one update: it removes the installed rules whose identifiers are in
  \<open>[RULE_BASE, RULE_BASE + 90000)\<close> and adds the compiled rules. When the browser accepts
  it, the installed rules are the rules outside the range, as they were, followed by the
  compiled rules (which are all the rules in the range when there are at most 90000 of
  them); when it rejects it, the installed rules are unchanged. \<open>syncRules\<close>, every
  command of the message handler, the startup listener and the alarm listener keep the
  rules outside the range. (The other listeners change the installed rules only by
  calling \<open>syncRules\<close>.)
\<close>

theorem syncPass_replaces_own_rules:
  "((fst (syncPass w) = Returned () \<and>
       dynamicRules (snd (syncPass w)) =
         filter (\<lambda>r. \<not> ours r) (dynamicRules w) @ fst (compileRules w) \<and>
       (length (fst (compileRules w)) \<le> 90000 \<longrightarrow>
          filter ours (dynamicRules (snd (syncPass w))) = fst (compileRules w)))
    \<or> ((\<exists>e. fst (syncPass w) = Threw e) \<and> dynamicRules (snd (syncPass w)) = dynamicRules w))
   \<and> foreignKept w (snd (syncRules w))
   \<and> foreignKept w (snd (onMessage msg w))
   \<and> foreignKept w (snd (onStartup w))
   \<and> foreignKept w (snd (onAlarm name w))"
proof -
  have "length (fst (compileRules w)) \<le> 90000 \<Longrightarrow>
      filter ours (filter (\<lambda>r. \<not> ours r) (dynamicRules w) @ fst (compileRules w))
        = fst (compileRules w)"
    using ours_desiredRules by (simp add: compileRules_fst length_desiredRules)
  then show ?thesis
    using syncPass_rules [of w]
    by (auto simp: foreignKept_syncRules foreignKept_onMessage foreignKept_onStartup
        foreignKept_onAlarm)
qed

lemma busyWorld_fields:
  "blockedDomains busyWorld = [''b.com'', ''a.com'', ''x.com'']"
  "pausedUntilTs busyWorld = 0" "pausedDomains busyWorld = []" "now busyWorld = 1000"
  "authorized busyWorld = authorized exampleWorld"
  by (simp_all add: busyWorld_def exampleWorld_def authorized_def fun_eq_iff)

lemma compile_busyWorld:
  "fst (compileRules busyWorld) = [domainRule 100000 ''b.com'', domainRule 100001 ''a.com'']"
  by (simp add: compileRules_fst busyWorld_fields authorized_example activeDomains_def
      unexpired_def desiredRules_def RULE_BASE_def)

theorem syncPass_replaces_own_rules_witness:
  "length (fst (compileRules busyWorld)) \<le> 90000 \<and>
   fst (syncPass busyWorld) = Returned () \<and>
   dynamicRules busyWorld = [foreignRule, domainRule 100005 ''old.com''] \<and>
   dynamicRules (snd (syncPass busyWorld)) =
     [foreignRule, domainRule 100000 ''b.com'', domainRule 100001 ''a.com'']"
proof -
  have a: "fst (syncPass busyWorld) = Returned ()"
    by (simp add: syncPass_fst busyWorld_def exampleWorld_def)
  have b: "filter (\<lambda>r. \<not> ours r) (dynamicRules busyWorld) = [foreignRule]"
    by (simp add: busyWorld_def ours_def foreignRule_def domainRule_def RULE_BASE_def)
  show ?thesis
    using syncPass_replaces_own_rules [of busyWorld] a b
    by (simp add: compile_busyWorld) (simp add: busyWorld_def)
qed

section \<open>Pauses\<close>

text \<open>
  C2. When the stored \<open>pausedUntilTs\<close> is after the clock value the pass reads (a time
  that is not before the epoch), the pass compiles no rule, whatever the blocklist, the per-domain pauses, the pending grants and
  the permissions are; and when the browser accepts its update, no rule in the reserved
  range is installed afterwards.
\<close>

theorem global_pause_dominates:
  assumes "0 \<le> now w" and "now w < pausedUntilTs w"
  shows "fst (compileRules w) = [] \<and>
    (fst (syncPass w) = Returned () \<longrightarrow> filter ours (dynamicRules (snd (syncPass w))) = [])"
proof -
  have c: "fst (compileRules w) = []"
    using assms by (simp add: compileRules_fst activeDomains_def desiredRules_def)
  show ?thesis
    using syncPass_rules [of w] by (auto simp: c)
qed

theorem global_pause_dominates_witness:
  "0 \<le> now pausedWorld \<and> now pausedWorld < pausedUntilTs pausedWorld \<and>
   blockedDomains pausedWorld = [''b.com'', ''a.com'', ''x.com''] \<and>
   fst (compileRules pausedWorld) = [] \<and>
   fst (syncPass pausedWorld) = Returned () \<and>
   filter ours (dynamicRules (snd (syncPass pausedWorld))) = []"
proof -
  have f: "now pausedWorld = 1000" "pausedUntilTs pausedWorld = 5000"
    "blockedDomains pausedWorld = [''b.com'', ''a.com'', ''x.com'']"
    by (simp_all add: pausedWorld_def busyWorld_def exampleWorld_def)
  have r: "fst (syncPass pausedWorld) = Returned ()"
    by (simp add: syncPass_fst pausedWorld_def busyWorld_def exampleWorld_def)
  show ?thesis
    using global_pause_dominates [of pausedWorld] f r by simp
qed

section \<open>Rule compilation\<close>

lemma hexDigit_unescaped16: "\<forall>n \<in> set [0..<16]. uriUnescaped (hexDigit n)"
  by code_simp

lemma hexDigit_unescaped: "n < 16 \<Longrightarrow> uriUnescaped (hexDigit n)"
  using hexDigit_unescaped16 by simp

lemma percent_safe: "b < 256 \<Longrightarrow> c \<in> set (percent b) \<Longrightarrow> uriUnescaped c \<or> c = CHR ''%''"
  by (auto simp: percent_def intro!: hexDigit_unescaped)

lemma encodeUnit_safe:
  assumes c: "c \<in> set (encodeUnit x)"
  shows "uriUnescaped c \<or> c = CHR ''%''"
proof -
  let ?n = "of_char x :: nat"
  have n: "?n < 256" by simp
  have "?n div 64 < 4"
    using n by (simp add: less_mult_imp_div_less)
  then have hi: "192 + ?n div 64 < 256" by linarith
  have lo: "128 + ?n mod 64 < 256" by simp
  consider "c = x" "uriUnescaped x" | "c \<in> set (percent ?n)"
    | "c \<in> set (percent (192 + ?n div 64))" | "c \<in> set (percent (128 + ?n mod 64))"
    using c by (auto simp: encodeUnit_def Let_def split: if_splits)
  then show ?thesis
  proof cases
    case 1
    then show ?thesis by simp
  next
    case 2
    then show ?thesis using percent_safe [OF n] by blast
  next
    case 3
    then show ?thesis using percent_safe [OF hi] by blast
  next
    case 4
    then show ?thesis using percent_safe [OF lo] by blast
  qed
qed

lemma encodeURIComponent_safe:
  "c \<in> set (encodeURIComponent d) \<Longrightarrow> uriUnescaped c \<or> c = CHR ''%''"
  by (auto simp: encodeURIComponent_def dest: encodeUnit_safe)

text \<open>
  C4 (amended). \<open>n\<close> active domains compile to \<open>n\<close> rules. The rule at position \<open>i\<close> has
  the identifier \<open>RULE_BASE + i\<close>, priority 1, the filter \<open>||domain^\<close>, the resource type
  \<open>main_frame\<close> only and a redirect to \<open>/blocked.html#d=\<close> followed by the encoded domain,
  in which every character is a letter, a digit, one of \<open>-_.!~*'()\<close> or \<open>%\<close>. The
  identifiers of one pass are distinct. Across passes an identifier follows the position,
  not the domain.
\<close>

theorem desiredRules_shape:
  "length (desiredRules ds) = length ds \<and>
   (\<forall>i < length ds.
      desiredRules ds ! i =
        \<lparr>ruleId = RULE_BASE + i, priority = 1, actionType = ''redirect'',
         extensionPath = ''/blocked.html#d='' @ encodeURIComponent (ds ! i),
         urlFilter = ''||'' @ ds ! i @ ''^'',
         resourceTypes = [''main_frame'']\<rparr> \<and>
      (\<forall>c \<in> set (encodeURIComponent (ds ! i)). uriUnescaped c \<or> c = CHR ''%'')) \<and>
   distinct (map ruleId (desiredRules ds))"
  by (auto simp: length_desiredRules desiredRules_nth domainRule_def ruleId_desiredRules
      dest: encodeURIComponent_safe)

theorem desiredRules_shape_witness:
  "desiredRules [''a.com'', ''<b>&c''] =
     [\<lparr>ruleId = 100000, priority = 1, actionType = ''redirect'',
       extensionPath = ''/blocked.html#d=a.com'', urlFilter = ''||a.com^'',
       resourceTypes = [''main_frame'']\<rparr>,
      \<lparr>ruleId = 100001, priority = 1, actionType = ''redirect'',
       extensionPath = ''/blocked.html#d=%3Cb%3E%26c'', urlFilter = ''||<b>&c^'',
       resourceTypes = [''main_frame'']\<rparr>]"
proof -
  have e: "encodeURIComponent ''a.com'' = ''a.com''" "encodeURIComponent ''<b>&c'' = ''%3Cb%3E%26c''"
    by code_simp+
  have l: "length (desiredRules [''a.com'', ''<b>&c'']) = 2"
    using desiredRules_shape [of "[''a.com'', ''<b>&c'']"] by simp
  have "desiredRules [''a.com'', ''<b>&c''] ! 0 = \<lparr>ruleId = 100000, priority = 1, actionType = ''redirect'',
       extensionPath = ''/blocked.html#d=a.com'', urlFilter = ''||a.com^'',
       resourceTypes = [''main_frame'']\<rparr>"
    and "desiredRules [''a.com'', ''<b>&c''] ! 1 = \<lparr>ruleId = 100001, priority = 1, actionType = ''redirect'',
       extensionPath = ''/blocked.html#d=%3Cb%3E%26c'', urlFilter = ''||<b>&c^'',
       resourceTypes = [''main_frame'']\<rparr>"
    using desiredRules_shape [of "[''a.com'', ''<b>&c'']"] e
    by (simp_all add: RULE_BASE_def)
  then show ?thesis
    using l by (simp add: list_eq_iff_nth_eq less_Suc_eq numeral_2_eq_2)
qed

lemma exampleWorld_fields:
  "blockedDomains exampleWorld = [''b.com'', ''a.com'', ''x.com'']"
  "pausedUntilTs exampleWorld = 0" "pausedDomains exampleWorld = []" "now exampleWorld = 1000"
  by (simp_all add: exampleWorld_def)

lemma snoozed_fields:
  "blockedDomains (setDomainPause ''b.com'' 5000 exampleWorld) = [''b.com'', ''a.com'', ''x.com'']"
  "pausedUntilTs (setDomainPause ''b.com'' 5000 exampleWorld) = 0"
  "pausedDomains (setDomainPause ''b.com'' 5000 exampleWorld) = [(''b.com'', 5000)]"
  "now (setDomainPause ''b.com'' 5000 exampleWorld) = 1000"
  "authorized (setDomainPause ''b.com'' 5000 exampleWorld) = authorized exampleWorld"
  by (simp_all add: setDomainPause_def exampleWorld_def authorized_def fun_eq_iff)

text \<open>
  C4 as stated fails: identifier 100000 is the rule of \<open>b.com\<close> in a pass, and the rule
  of \<open>a.com\<close> in a pass after \<open>b.com\<close> was paused.
\<close>

theorem identifier_reused_counterexample:
  "ruleId (fst (compileRules exampleWorld) ! 0) = 100000 \<and>
   urlFilter (fst (compileRules exampleWorld) ! 0) = ''||b.com^'' \<and>
   ruleId (fst (compileRules (setDomainPause ''b.com'' 5000 exampleWorld)) ! 0) = 100000 \<and>
   urlFilter (fst (compileRules (setDomainPause ''b.com'' 5000 exampleWorld)) ! 0) = ''||a.com^'' \<and>
   urlFilter (fst (compileRules (setDomainPause ''b.com'' 5000 exampleWorld)) ! 0) \<noteq>
     urlFilter (fst (compileRules exampleWorld) ! 0)"
  by (simp add: compileRules_fst exampleWorld_fields snoozed_fields authorized_example
      activeDomains_def unexpired_def desiredRules_def domainRule_def RULE_BASE_def)

section \<open>Two calls in a row\<close>

lemma syncRules_idle:
  assumes "\<not> syncing w" and "\<not> needsResync w"
  shows "syncRules w =
    (fst (syncPass (w\<lparr>syncing := True\<rparr>)), (snd (syncPass (w\<lparr>syncing := True\<rparr>)))\<lparr>syncing := False\<rparr>)"
proof -
  obtain r w2 where p: "syncPass (w\<lparr>syncing := True\<rparr>) = (r, w2)"
    by (cases "syncPass (w\<lparr>syncing := True\<rparr>)")
  have "\<not> needsResync w2"
    using assms syncPass_flags(1) [of "w\<lparr>syncing := True\<rparr>"] by (simp add: p)
  then show ?thesis
    using assms by (simp add: syncRules.simps [of w] enter_def leave_def p)
qed

lemma authorized_cong:
  "(\<And>d. unexpired (pendingGrants a) (now a) d = unexpired (pendingGrants b) (now b) d)
   \<Longrightarrow> permissions a = permissions b \<Longrightarrow> authorized a = authorized b"
  by (rule ext) (simp add: authorized_def)

lemma syncPass_fields:
  "blockedDomains (snd (syncPass w)) = blockedDomains (snd (reconcileDomains (blockedDomains w) w))"
  "pendingGrants (snd (syncPass w)) = pendingGrants (snd (reconcileDomains (blockedDomains w) w))"
  "pausedUntilTs (snd (syncPass w)) = pausedUntilTs w"
  "pausedDomains (snd (syncPass w)) = pausedDomains w"
  "permissions (snd (syncPass w)) = permissions w"
  "now (snd (syncPass w)) = now w"
  using compileRules_snd [of w]
  by (auto simp: syncPass_def updateDynamicRules_def Let_def reconcileDomains_fields
      split: prod.splits option.splits)

lemma syncRules_idle_fields:
  assumes "\<not> syncing w" and "\<not> needsResync w"
  shows "blockedDomains (snd (syncRules w)) =
      (if \<forall>d \<in> set (blockedDomains w). authorized w d then blockedDomains w
       else uniqSorted (filter (authorized w) (blockedDomains w)))"
    and "authorized (snd (syncRules w)) = authorized w"
    and "pausedUntilTs (snd (syncRules w)) = pausedUntilTs w"
    and "pausedDomains (snd (syncRules w)) = pausedDomains w"
    and "now (snd (syncRules w)) = now w"
proof -
  let ?v = "w\<lparr>syncing := True\<rparr>"
  have av: "authorized ?v = authorized w"
    by (rule authorized_cong) simp_all
  have s: "snd (syncRules w) = (snd (syncPass ?v))\<lparr>syncing := False\<rparr>"
    using syncRules_idle [OF assms] by simp
  show "blockedDomains (snd (syncRules w)) =
      (if \<forall>d \<in> set (blockedDomains w). authorized w d then blockedDomains w
       else uniqSorted (filter (authorized w) (blockedDomains w)))"
    using reconcileDomains_result(2) [of "blockedDomains ?v" ?v]
    by (simp add: s syncPass_fields av)
  show "authorized (snd (syncRules w)) = authorized w"
  proof (rule authorized_cong)
    fix d
    show "unexpired (pendingGrants (snd (syncRules w))) (now (snd (syncRules w))) d =
        unexpired (pendingGrants w) (now w) d"
      using reconcileDomains_result(3) [of "blockedDomains ?v" ?v d]
      by (simp add: s syncPass_fields)
  next
    show "permissions (snd (syncRules w)) = permissions w"
      by (simp add: s syncPass_fields)
  qed
  show "pausedUntilTs (snd (syncRules w)) = pausedUntilTs w"
    "pausedDomains (snd (syncRules w)) = pausedDomains w"
    "now (snd (syncRules w)) = now w"
    by (simp_all add: s syncPass_fields)
qed

lemma addAll_distinct: "distinct (seen @ xs) \<Longrightarrow> addAll seen xs = seen @ xs"
  by (induction xs arbitrary: seen) auto

lemma uniqSorted_id: "sorted xs \<Longrightarrow> distinct xs \<Longrightarrow> uniqSorted xs = xs"
  by (simp add: uniqSorted_def addAll_distinct sorted_sort_id)

lemma unexpired_later:
  assumes "t \<le> t'" and "\<forall>(k, ts) \<in> set m. noExpiry t t' ts"
  shows "unexpired m t' d = unexpired m t d"
proof (cases "map_of m d")
  case None
  then show ?thesis by (simp add: unexpired_def)
next
  case (Some ts)
  then have "(d, ts) \<in> set m" by (rule map_of_SomeD)
  with assms(2) have "noExpiry t t' ts" by auto
  with assms(1) show ?thesis
    by (auto simp: unexpired_def Some noExpiry_def)
qed

lemma syncRules_idle_pending:
  assumes "\<not> syncing w" and "\<not> needsResync w"
  shows "set (pendingGrants (snd (syncRules w))) \<subseteq> set (pendingGrants w)"
    and "unexpired (pendingGrants (snd (syncRules w))) (now w) d =
      unexpired (pendingGrants w) (now w) d"
    and "permissions (snd (syncRules w)) = permissions w"
proof -
  let ?v = "w\<lparr>syncing := True\<rparr>"
  have s: "snd (syncRules w) = (snd (syncPass ?v))\<lparr>syncing := False\<rparr>"
    using syncRules_idle [OF assms] by simp
  show "set (pendingGrants (snd (syncRules w))) \<subseteq> set (pendingGrants w)"
    using reconcileDomains_result(5) [of "blockedDomains ?v" ?v]
    by (simp add: s syncPass_fields)
  show "unexpired (pendingGrants (snd (syncRules w))) (now w) d =
      unexpired (pendingGrants w) (now w) d"
    using reconcileDomains_result(3) [of "blockedDomains ?v" ?v d]
    by (simp add: s syncPass_fields)
  show "permissions (snd (syncRules w)) = permissions w"
    by (simp add: s syncPass_fields)
qed

text \<open>
  C9 (amended). Let the coordinator be idle; let the stored blocklist be sorted and free
  of duplicates, or hold no denied domain; and let no global pause, domain pause or
  pending grant expire between the clock value \<open>now\<close> of the first call and the clock
  value \<open>t'\<close> of the second. Then the second call of \<open>syncRules\<close>, on the state the first
  one left, compiles the same rules as the first: the same domains, identifiers and
  contents.
\<close>

theorem syncRules_idempotent:
  assumes "\<not> syncing w" and "\<not> needsResync w"
    and "(sorted (blockedDomains w) \<and> distinct (blockedDomains w))
         \<or> (\<forall>d \<in> set (blockedDomains w). authorized w d)"
    and "now w \<le> t'"
    and "noExpiry (now w) t' (pausedUntilTs w)"
    and "\<forall>(d, ts) \<in> set (pausedDomains w). noExpiry (now w) t' ts"
    and "\<forall>(d, ts) \<in> set (pendingGrants w). noExpiry (now w) t' ts"
  shows "fst (compileRules ((snd (syncRules w))\<lparr>now := t'\<rparr>)) = fst (compileRules w)"
proof -
  let ?w1 = "snd (syncRules w)"
  let ?w2 = "?w1\<lparr>now := t'\<rparr>"
  note f = syncRules_idle_fields [OF assms(1,2)]
  note g = syncRules_idle_pending [OF assms(1,2)]
  have sub: "\<forall>(d, ts) \<in> set (pendingGrants ?w1). noExpiry (now w) t' ts"
    using g(1) assms(7) by blast
  have auth: "authorized ?w2 = authorized w"
  proof (rule authorized_cong)
    fix d
    show "unexpired (pendingGrants ?w2) (now ?w2) d = unexpired (pendingGrants w) (now w) d"
      using unexpired_later [OF assms(4) sub, of d] g(2) [of d] by simp
  next
    show "permissions ?w2 = permissions w" by (simp add: g(3))
  qed
  have paused: "unexpired (pausedDomains w) t' d = unexpired (pausedDomains w) (now w) d" for d
    by (rule unexpired_later [OF assms(4,6)])
  have global: "(pausedUntilTs w \<noteq> 0 \<and> t' < pausedUntilTs w) =
      (pausedUntilTs w \<noteq> 0 \<and> now w < pausedUntilTs w)"
    using assms(4,5) by (auto simp: noExpiry_def)
  have list: "filter (authorized w) (blockedDomains ?w1) = filter (authorized w) (blockedDomains w)"
  proof (cases "\<forall>d \<in> set (blockedDomains w). authorized w d")
    case True
    then show ?thesis by (simp add: f(1))
  next
    case False
    with assms(3) have "sorted (blockedDomains w)" "distinct (blockedDomains w)" by auto
    then have "uniqSorted (filter (authorized w) (blockedDomains w)) =
        filter (authorized w) (blockedDomains w)"
      by (simp add: uniqSorted_id sorted_wrt_filter)
    then show ?thesis
      using False by (simp add: f(1))
  qed
  have "fst (compileRules ?w2) =
      desiredRules (activeDomains (pausedUntilTs w) (pausedDomains w) t'
        (filter (authorized w) (blockedDomains w)))"
    by (simp add: compileRules_fst auth f(3,4) list)
  also have "\<dots> = fst (compileRules w)"
    by (simp add: compileRules_fst activeDomains_def paused global)
  finally show ?thesis .
qed

lemma exampleWorld_idle: "\<not> syncing exampleWorld" "\<not> needsResync exampleWorld"
  by (simp_all add: exampleWorld_def)

text \<open>
  C9 as stated fails in two ways. On a stored list that is not sorted and holds a denied
  domain, the first call compiles \<open>b.com\<close>, \<open>a.com\<close> in the stored order and rewrites
  the list sorted, so the second call compiles \<open>a.com\<close>, \<open>b.com\<close>. And when a global
  pause expires between the two calls, the first compiles nothing and the second the
  whole list, although nothing stored has changed.
\<close>

theorem syncRules_twice_counterexample:
  "fst (compileRules exampleWorld) = [domainRule 100000 ''b.com'', domainRule 100001 ''a.com''] \<and>
   fst (compileRules (snd (syncRules exampleWorld))) =
     [domainRule 100000 ''a.com'', domainRule 100001 ''b.com''] \<and>
   fst (compileRules (snd (syncRules exampleWorld))) \<noteq> fst (compileRules exampleWorld) \<and>
   fst (compileRules expiringWorld) = [] \<and>
   fst (compileRules ((snd (syncRules expiringWorld))\<lparr>now := 2000\<rparr>)) =
     [domainRule 100000 ''a.com'', domainRule 100001 ''b.com'']"
proof -
  have "fst (compileRules exampleWorld) = [domainRule 100000 ''b.com'', domainRule 100001 ''a.com'']"
    and "fst (compileRules (snd (syncRules exampleWorld))) =
     [domainRule 100000 ''a.com'', domainRule 100001 ''b.com'']"
    by (simp_all add: compileRules_fst syncRules_idle_fields [OF exampleWorld_idle]
        exampleWorld_fields authorized_example uniqSorted_def
        activeDomains_def unexpired_def desiredRules_def RULE_BASE_def)
  moreover have i: "\<not> syncing expiringWorld" "\<not> needsResync expiringWorld"
    by (simp_all add: expiringWorld_def tidyWorld_def exampleWorld_def)
  have f: "blockedDomains expiringWorld = [''a.com'', ''b.com'', ''x.com'']"
    "pausedUntilTs expiringWorld = 1500" "now expiringWorld = 1000"
    "pausedDomains expiringWorld = []" "pendingGrants expiringWorld = []"
    "permissions expiringWorld = permissions exampleWorld"
    by (simp_all add: expiringWorld_def tidyWorld_def exampleWorld_def)
  have a: "authorized expiringWorld = authorized exampleWorld"
    by (rule authorized_cong) (simp_all add: f exampleWorld_def)
  have p: "pendingGrants (snd (syncRules expiringWorld)) = []"
    using syncRules_idle_pending(1) [OF i] by (simp add: f)
  have a2: "authorized ((snd (syncRules expiringWorld))\<lparr>now := 2000\<rparr>) = authorized exampleWorld"
    by (rule authorized_cong)
      (simp_all add: p syncRules_idle_pending(3) [OF i] f unexpired_def exampleWorld_def)
  have "fst (compileRules expiringWorld) = []"
    by (simp add: compileRules_fst f activeDomains_def desiredRules_def)
  moreover have "fst (compileRules ((snd (syncRules expiringWorld))\<lparr>now := 2000\<rparr>)) =
     [domainRule 100000 ''a.com'', domainRule 100001 ''b.com'']"
    by (simp add: compileRules_fst a2 syncRules_idle_fields [OF i] f a authorized_example
        uniqSorted_def activeDomains_def unexpired_def desiredRules_def RULE_BASE_def)
  ultimately show ?thesis
    by (simp add: domainRule_def)
qed

theorem syncRules_idempotent_witness:
  "\<not> syncing laterWorld \<and> \<not> needsResync laterWorld \<and>
   sorted (blockedDomains laterWorld) \<and> distinct (blockedDomains laterWorld) \<and>
   \<not> authorized laterWorld ''x.com'' \<and>
   now laterWorld \<le> 2000 \<and>
   fst (compileRules laterWorld) = [domainRule 100000 ''a.com''] \<and>
   fst (compileRules ((snd (syncRules laterWorld))\<lparr>now := 2000\<rparr>)) = [domainRule 100000 ''a.com'']"
proof -
  have f: "\<not> syncing laterWorld" "\<not> needsResync laterWorld"
    "blockedDomains laterWorld = [''a.com'', ''b.com'', ''x.com'']"
    "pausedUntilTs laterWorld = 0" "now laterWorld = 1000"
    "pausedDomains laterWorld = [(''a.com'', 900), (''b.com'', 9000)]"
    "pendingGrants laterWorld = [(''x.com'', 500)]"
    by (simp_all add: laterWorld_def tidyWorld_def exampleWorld_def)
  have a: "authorized laterWorld ''a.com''" "authorized laterWorld ''b.com''"
    "\<not> authorized laterWorld ''x.com''"
    by (simp_all add: authorized_def laterWorld_def tidyWorld_def exampleWorld_def unexpired_def
        hasHostAccess_def checks_def grantedAB_def)
  have c: "fst (compileRules laterWorld) = [domainRule 100000 ''a.com'']"
    by (simp add: compileRules_fst f a activeDomains_def unexpired_def
        desiredRules_def RULE_BASE_def)
  show ?thesis
    using syncRules_idempotent [of laterWorld 2000] f a c by (simp add: noExpiry_def)
qed

section \<open>Startup\<close>

lemma alarms_syncRules: "alarms (snd (syncRules w)) = alarms w"
  by (rule syncRules_rel [where R = "\<lambda>a b. alarms b = alarms a"])
    (simp_all add: syncPass_alarms)

lemma rearm_other:
  "\<forall>(d, ts) \<in> set xs. ''fg:resume:'' @ d \<noteq> n \<or> \<not> (ts \<noteq> 0 \<and> t < ts)
   \<Longrightarrow> map_of (alarms (fold (rearm t) xs v)) n = map_of (alarms v) n"
  by (induction xs arbitrary: v) (auto simp: rearm_def alarmsCreate_def update_conv')

lemma rearm_live:
  "distinct (map fst xs) \<Longrightarrow> (d, ts) \<in> set xs \<Longrightarrow> ts \<noteq> 0 \<Longrightarrow> t < ts
   \<Longrightarrow> map_of (alarms (fold (rearm t) xs v)) (''fg:resume:'' @ d) = Some ts"
proof (induction xs arbitrary: v)
  case Nil
  then show ?case by simp
next
  case (Cons x xs)
  show ?case
  proof (cases "x = (d, ts)")
    case True
    have "\<forall>(d', ts') \<in> set xs. ''fg:resume:'' @ d' \<noteq> ''fg:resume:'' @ d \<or> \<not> (ts' \<noteq> 0 \<and> t < ts')"
      using Cons.prems(1) True by (auto simp: image_iff)
    from rearm_other [OF this] show ?thesis
      using True Cons.prems(3,4) by (simp add: rearm_def alarmsCreate_def update_conv')
  next
    case False
    then show ?thesis
      using Cons by simp
  qed
qed

lemma rearm_dead:
  assumes "distinct (map fst xs)" and "(d, ts) \<in> set xs" and "\<not> (ts \<noteq> 0 \<and> t < ts)"
  shows "map_of (alarms (fold (rearm t) xs v)) (''fg:resume:'' @ d) =
    map_of (alarms v) (''fg:resume:'' @ d)"
proof -
  have same: "ts' = ts" if "(d, ts') \<in> set xs" for ts'
    using that assms(1,2) eq_key_imp_eq_value by fastforce
  have "\<forall>(d', ts') \<in> set xs. ''fg:resume:'' @ d' \<noteq> ''fg:resume:'' @ d \<or> \<not> (ts' \<noteq> 0 \<and> t < ts')"
    using same assms(3) by auto
  from rearm_other [OF this] show ?thesis .
qed

lemma onStartup_eq:
  "onStartup w =
     syncRules (fold (rearm (now w)) (pausedDomains w)
       (if pausedUntilTs w \<noteq> 0 \<and> now w < pausedUntilTs w
        then alarmsCreate ''fg:resumeAll'' (pausedUntilTs w) w else w))"
  by (simp add: onStartup_def Let_def)

lemma rearm_only_alarms: "\<exists>a. fold (rearm t) xs v = v\<lparr>alarms := a\<rparr>"
proof (induction xs arbitrary: v)
  case Nil
  show ?case by (rule exI [of _ "alarms v"]) simp
next
  case (Cons x xs)
  obtain b where b: "rearm t x v = v\<lparr>alarms := b\<rparr>"
  proof (cases "snd x \<noteq> 0 \<and> t < snd x")
    case True
    then have "rearm t x v = v\<lparr>alarms := AList.update (''fg:resume:'' @ fst x) (snd x) (alarms v)\<rparr>"
      by (simp add: rearm_def alarmsCreate_def case_prod_beta)
    then show ?thesis using that by blast
  next
    case False
    then have "rearm t x v = v\<lparr>alarms := alarms v\<rparr>"
      by (auto simp: rearm_def case_prod_beta)
    then show ?thesis using that [of "alarms v"] by simp
  qed
  obtain a where "fold (rearm t) xs (rearm t x v) = (rearm t x v)\<lparr>alarms := a\<rparr>"
    using Cons [of "rearm t x v"] by blast
  then have "fold (rearm t) (x # xs) v = v\<lparr>alarms := a\<rparr>"
    by (simp add: b)
  then show ?case by blast
qed

lemma reconcileDomains_alarms:
  "reconcileDomains ds (w\<lparr>alarms := a\<rparr>) =
     (fst (reconcileDomains ds w), (snd (reconcileDomains ds w))\<lparr>alarms := a\<rparr>)"
  by (cases "reconcileLoop (permissions w) (now w) ds (pendingGrants w, False, [], [])")
    (simp add: reconcileDomains_def Let_def)

lemma compileRules_alarms:
  "compileRules (w\<lparr>alarms := a\<rparr>) = (fst (compileRules w), (snd (compileRules w))\<lparr>alarms := a\<rparr>)"
  by (cases "reconcileDomains (blockedDomains w) w")
    (simp add: compileRules_def reconcileDomains_alarms)

lemma syncPass_alarms_update:
  "syncPass (w\<lparr>alarms := a\<rparr>) = (fst (syncPass w), (snd (syncPass w))\<lparr>alarms := a\<rparr>)"
proof -
  obtain desired w1 where c: "compileRules w = (desired, w1)" by (cases "compileRules w")
  show ?thesis
    by (cases "dnrRejects w1 (map ruleId (filter ours (dynamicRules w1))) desired (dynamicRules w1)")
      (simp_all add: syncPass_def compileRules_alarms c updateDynamicRules_def Let_def)
qed

lemma reconcileDomains_syncing:
  "reconcileDomains ds (w\<lparr>syncing := a\<rparr>) =
     (fst (reconcileDomains ds w), (snd (reconcileDomains ds w))\<lparr>syncing := a\<rparr>)"
  by (cases "reconcileLoop (permissions w) (now w) ds (pendingGrants w, False, [], [])")
    (simp add: reconcileDomains_def Let_def)

lemma compileRules_syncing:
  "compileRules (w\<lparr>syncing := a\<rparr>) = (fst (compileRules w), (snd (compileRules w))\<lparr>syncing := a\<rparr>)"
  by (cases "reconcileDomains (blockedDomains w) w")
    (simp add: compileRules_def reconcileDomains_syncing)

lemma syncPass_syncing_update:
  "syncPass (w\<lparr>syncing := a\<rparr>) = (fst (syncPass w), (snd (syncPass w))\<lparr>syncing := a\<rparr>)"
proof -
  obtain desired w1 where c: "compileRules w = (desired, w1)" by (cases "compileRules w")
  show ?thesis
    by (cases "dnrRejects w1 (map ruleId (filter ours (dynamicRules w1))) desired (dynamicRules w1)")
      (simp_all add: syncPass_def compileRules_syncing c updateDynamicRules_def Let_def)
qed

text \<open>
  C7. At startup the coordinator is idle and the keys of \<open>pausedDomains\<close> are distinct.
  After the listener, the alarm \<open>fg:resumeAll\<close> is set to \<open>pausedUntilTs\<close> when that is
  in the future, and is as it was otherwise; for every entry \<open>(d, ts)\<close> of
  \<open>pausedDomains\<close> the alarm \<open>fg:resume:d\<close> is set to \<open>ts\<close> when \<open>ts\<close> is in the future,
  and is as it was otherwise; and then a pass has run: the completion and every part of
  the world but the alarms are those of one pass on the stored state.
\<close>

theorem onStartup_rearms:
  assumes "\<not> syncing w" and "\<not> needsResync w"
    and "distinct (map fst (pausedDomains w))" and "0 \<le> now w"
  shows "(now w < pausedUntilTs w \<longrightarrow>
            map_of (alarms (snd (onStartup w))) ''fg:resumeAll'' = Some (pausedUntilTs w)) \<and>
         (\<not> now w < pausedUntilTs w \<longrightarrow>
            map_of (alarms (snd (onStartup w))) ''fg:resumeAll'' = map_of (alarms w) ''fg:resumeAll'') \<and>
         (\<forall>(d, ts) \<in> set (pausedDomains w).
            (now w < ts \<longrightarrow>
               map_of (alarms (snd (onStartup w))) (''fg:resume:'' @ d) = Some ts) \<and>
            (\<not> now w < ts \<longrightarrow>
               map_of (alarms (snd (onStartup w))) (''fg:resume:'' @ d) =
                 map_of (alarms w) (''fg:resume:'' @ d))) \<and>
         fst (onStartup w) = fst (syncPass w) \<and>
         snd (onStartup w) = (snd (syncPass w))\<lparr>alarms := alarms (snd (onStartup w))\<rparr>"
proof -
  define t where "t = now w"
  define w1 where "w1 = (if pausedUntilTs w \<noteq> 0 \<and> t < pausedUntilTs w
             then alarmsCreate ''fg:resumeAll'' (pausedUntilTs w) w else w)"
  define w2 where "w2 = fold (rearm t) (pausedDomains w) w1"
  have start: "onStartup w = syncRules w2"
    by (simp only: onStartup_eq w2_def w1_def t_def)
  have al: "alarms (snd (onStartup w)) = alarms w2"
    by (simp only: start alarms_syncRules)
  have nz: "\<And>ts. t < ts \<Longrightarrow> ts \<noteq> 0" using assms(4) by (auto simp: t_def)
  have global: "\<forall>(d, ts) \<in> set (pausedDomains w).
      ''fg:resume:'' @ d \<noteq> ''fg:resumeAll'' \<or> \<not> (ts \<noteq> 0 \<and> t < ts)"
    by auto
  have g: "map_of (alarms w2) ''fg:resumeAll'' = map_of (alarms w1) ''fg:resumeAll''"
    unfolding w2_def by (rule rearm_other [OF global])
  have g1: "t < pausedUntilTs w \<Longrightarrow> map_of (alarms w2) ''fg:resumeAll'' = Some (pausedUntilTs w)"
    using nz [of "pausedUntilTs w"] by (simp add: g w1_def alarmsCreate_def update_conv')
  have g2: "\<not> t < pausedUntilTs w \<Longrightarrow>
      map_of (alarms w2) ''fg:resumeAll'' = map_of (alarms w) ''fg:resumeAll''"
    by (simp add: g w1_def)
  have d1: "map_of (alarms w2) (''fg:resume:'' @ d) = Some ts"
    if "(d, ts) \<in> set (pausedDomains w)" "t < ts" for d ts
    unfolding w2_def using rearm_live [OF assms(3) that(1) nz [OF that(2)] that(2)] .
  have keep: "map_of (alarms w1) (''fg:resume:'' @ d) = map_of (alarms w) (''fg:resume:'' @ d)" for d
    by (simp add: w1_def alarmsCreate_def update_conv')
  have d2: "map_of (alarms w2) (''fg:resume:'' @ d) = map_of (alarms w) (''fg:resume:'' @ d)"
    if "(d, ts) \<in> set (pausedDomains w)" "\<not> t < ts" for d ts
    unfolding w2_def
    using rearm_dead [OF assms(3) that(1), of t w1] that(2) keep [of d] by simp
  obtain a where w2: "w2 = w\<lparr>alarms := a\<rparr>"
  proof -
    obtain b where "w2 = w1\<lparr>alarms := b\<rparr>"
      unfolding w2_def using rearm_only_alarms [of t "pausedDomains w" w1] by blast
    then have "w2 = w\<lparr>alarms := b\<rparr>"
      by (simp add: w1_def alarmsCreate_def split: if_splits)
    then show ?thesis using that by blast
  qed
  have idle2: "\<not> syncing (w\<lparr>alarms := a\<rparr>)" "\<not> needsResync (w\<lparr>alarms := a\<rparr>)"
    using assms(1,2) by simp_all
  have "syncing (snd (syncPass w)) = False"
    using assms(1) by (simp add: syncPass_flags)
  then have sw: "(snd (syncPass w))\<lparr>alarms := a, syncing := False\<rparr> =
      (snd (syncPass w))\<lparr>alarms := a\<rparr>"
    by (cases "snd (syncPass w)") simp
  have run: "onStartup w = (fst (syncPass w), (snd (syncPass w))\<lparr>alarms := a\<rparr>)"
    by (simp only: start w2 syncRules_idle [OF idle2])
      (simp add: syncPass_syncing_update syncPass_alarms_update sw)
  have aa: "alarms w2 = a" by (simp add: w2)
  show ?thesis
    using g1 g2 d1 d2 by (auto simp: al t_def [symmetric]) (simp_all add: run aa)
qed

theorem onStartup_rearms_witness:
  "\<not> syncing restartWorld \<and> \<not> needsResync restartWorld \<and>
   distinct (map fst (pausedDomains restartWorld)) \<and> 0 \<le> now restartWorld \<and>
   now restartWorld < pausedUntilTs restartWorld \<and>
   pausedDomains restartWorld = [(''d.example'', 301000), (''old.example'', 500)] \<and>
   alarms restartWorld = [] \<and>
   map_of (alarms (snd (onStartup restartWorld))) ''fg:resumeAll'' = Some 5000 \<and>
   map_of (alarms (snd (onStartup restartWorld))) ''fg:resume:d.example'' = Some 301000 \<and>
   map_of (alarms (snd (onStartup restartWorld))) ''fg:resume:old.example'' = None"
proof -
  have f: "\<not> syncing restartWorld" "\<not> needsResync restartWorld"
    "pausedDomains restartWorld = [(''d.example'', 301000), (''old.example'', 500)]"
    "now restartWorld = 1000" "pausedUntilTs restartWorld = 5000" "alarms restartWorld = []"
    by (simp_all add: restartWorld_def exampleWorld_def)
  show ?thesis
    using onStartup_rearms [of restartWorld] by (simp add: f)
qed

section \<open>The message handler\<close>

text \<open>
  Every reply is \<open>{ ok: true }\<close> or \<open>{ ok: false, error: msg }\<close>. A command that is not
  known, minutes that are not a positive number and a domain that is missing or falsy
  are refused with a message, and the world is unchanged.
\<close>

lemma respond_shape:
  "fst (respond p) = succeeded \<or> (\<exists>e. fst (respond p) = failed e)"
  by (cases p; cases "fst p") (auto simp: respond_def)

lemma onMessage_shape:
  "fst (onMessage msg w) = succeeded \<or> (\<exists>e. fst (onMessage msg w) = failed e)"
  using respond_shape by (auto simp: onMessage_def)

lemma onMessage_rejects:
  "cmd msg \<notin> JStr ` set commands \<Longrightarrow> onMessage msg w = (failed ''Unknown command'', w)"
  "cmd msg = JStr ''pauseForMinutes'' \<Longrightarrow> \<not> positiveNumber (minutes msg)
     \<Longrightarrow> onMessage msg w = (failed ''Invalid minutes'', w)"
  "cmd msg = JStr ''pauseDomain'' \<Longrightarrow> \<not> truthy (domain msg) \<or> \<not> positiveNumber (minutes msg)
     \<Longrightarrow> onMessage msg w = (failed ''Invalid domain or minutes'', w)"
  "cmd msg \<in> JStr ` {''resumeDomain'', ''markPending'', ''markGranted''} \<Longrightarrow> \<not> truthy (domain msg)
     \<Longrightarrow> onMessage msg w = (failed ''Invalid domain'', w)"
  by (auto simp: onMessage_def commands_def)

text \<open>
  C8. A domain that is not a string should be refused like a missing one, but the
  handler tests only that \<open>msg.domain\<close> is truthy. For the number 42 as the domain,
  \<open>markPending\<close> replies \<open>{ ok: true }\<close> and stores a pending grant under the key
  \<open>"42"\<close>, and \<open>pauseDomain\<close> replies \<open>{ ok: true }\<close> although \<open>pauseDomainForMinutes\<close>
  refused the domain and did nothing.
\<close>

theorem onMessage_nonstring_domain:
  "onMessage \<lparr>cmd = JStr ''markPending'', domain = JNum 42, minutes = JUndefined\<rparr> exampleWorld =
     (succeeded, exampleWorld\<lparr>pendingGrants := [(''42'', 16000)]\<rparr>) \<and>
   onMessage \<lparr>cmd = JStr ''pauseDomain'', domain = JNum 42, minutes = JNum 15\<rparr> exampleWorld =
     (succeeded, exampleWorld)"
proof -
  have d: "decimal 42 = ''42''" by code_simp
  show ?thesis
    by (simp add: onMessage_def setPendingGrant_def pauseDomainForMinutes_def respond_def d)
      (simp add: exampleWorld_def)
qed

section \<open>From the rule to the blocked page\<close>

lemma hexValue_hexDigit: "n < 16 \<Longrightarrow> hexValue (hexDigit n) = Some n"
  by (auto simp: hexDigit_def Let_def)

lemma escapedByte_percent: "b < 256 \<Longrightarrow> escapedByte (percent b @ rest) = Some (b, rest)"
proof -
  assume b: "b < 256"
  then have "b div 16 < 16" by (simp add: less_mult_imp_div_less)
  then show ?thesis
    by (simp add: percent_def hexValue_hexDigit del: hexValue.simps)
qed

lemma unescaped_not_percent: "uriUnescaped c \<Longrightarrow> c \<noteq> CHR ''%''"
  by (auto simp: uriUnescaped_def)

lemma percent_Cons: "percent b @ rest = CHR ''%'' # hexDigit (b div 16) # hexDigit (b mod 16) # rest"
  by (simp add: percent_def)

lemma decode_percent:
  "b < 256 \<Longrightarrow> decodeURIComponent (percent b @ rest) =
     (case escapedByte (percent b @ rest) of
        None \<Rightarrow> URIError
      | Some (b, rest) \<Rightarrow>
          if b < 128 then prepend (char_of b) (decodeURIComponent rest)
          else if b < 194 then URIError
          else if 248 \<le> b then URIError
          else if 196 \<le> b then Beyond
          else
            (case escapedByte rest of
               None \<Rightarrow> URIError
             | Some (b2, rest2) \<Rightarrow>
                 if 128 \<le> b2 \<and> b2 < 192
                 then prepend (char_of ((b - 192) * 64 + (b2 - 128))) (decodeURIComponent rest2)
                 else URIError))"
  by (simp only: percent_Cons decodeURIComponent.simps) simp

lemma decode_encodeUnit:
  "decodeURIComponent (encodeUnit c @ rest) = prepend c (decodeURIComponent rest)"
proof -
  let ?n = "of_char c :: nat"
  have n: "?n < 256" by simp
  show ?thesis
  proof (cases "uriUnescaped c")
    case True
    then show ?thesis
      using unescaped_not_percent [OF True] by (simp add: encodeUnit_def)
  next
    case False
    show ?thesis
    proof (cases "?n < 128")
      case True
      then show ?thesis
        using False by (simp add: encodeUnit_def decode_percent [OF n] escapedByte_percent [OF n])
    next
      case big: False
      define h where "h = 192 + ?n div 64"
      define l where "l = 128 + ?n mod 64"
      have "?n div 64 < 4" using n by (simp add: less_mult_imp_div_less)
      moreover have "2 \<le> ?n div 64" using big by linarith
      ultimately have h: "h < 256" "\<not> h < 128" "\<not> h < 194" "\<not> 248 \<le> h" "\<not> 196 \<le> h"
        unfolding h_def by linarith+
      have l: "l < 256" "128 \<le> l" "l < 192"
        unfolding l_def by simp_all
      have rejoin: "(h - 192) * 64 + (l - 128) = ?n"
        unfolding h_def l_def by simp
      have e: "encodeUnit c @ rest = percent h @ (percent l @ rest)"
        using False big by (simp add: encodeUnit_def Let_def h_def l_def)
      show ?thesis
        unfolding e
        by (simp add: decode_percent [OF h(1)] escapedByte_percent [OF h(1)]
            escapedByte_percent [OF l(1)] h l rejoin)
    qed
  qed
qed

lemma decode_encode: "decodeURIComponent (encodeURIComponent s) = Decoded s"
  by (induction s) (simp_all add: encodeURIComponent_def decode_encodeUnit)

lemma no_ampersand: "CHR ''&'' \<notin> set (encodeURIComponent d)"
proof
  assume "CHR ''&'' \<in> set (encodeURIComponent d)"
  from encodeURIComponent_safe [OF this] show False
    by (simp add: uriUnescaped_def)
qed

lemma encodeUnit_nonempty: "encodeUnit c \<noteq> []"
  by (simp add: encodeUnit_def Let_def percent_def)

lemma encodeURIComponent_nonempty: "d \<noteq> [] \<Longrightarrow> encodeURIComponent d \<noteq> []"
  by (cases d) (simp_all add: encodeURIComponent_def encodeUnit_nonempty)

lemma hash_of_rule:
  "locationHash (extensionPath (domainRule i d)) = ''#d='' @ encodeURIComponent d"
  by (simp add: locationHash_def domainRule_def)

lemma matchD_hash:
  "e \<noteq> [] \<Longrightarrow> CHR ''&'' \<notin> set e \<Longrightarrow> matchD (''#d='' @ e) = Some e"
proof -
  assume e: "e \<noteq> []" and a: "CHR ''&'' \<notin> set e"
  from a have tw: "takeWhile (\<lambda>x. x \<noteq> CHR ''&'') e = e"
    by (auto simp: takeWhile_eq_all_conv)
  show ?thesis by (simp add: tw e)
qed

lemma lowerUnit_W: "lowerUnit c = c \<Longrightarrow> c \<noteq> CHR ''W''"
  by (auto simp: lowerUnit_def Let_def char_of_eq_iff)

lemma stripWww_lower:
  assumes "toLowerCase d = d" and "\<not> startsWith d ''www.''"
  shows "stripWww d = d"
proof (cases d rule: stripWww.cases)
  case (1 a b c e rest)
  have "lowerUnit a = a" "lowerUnit b = b" "lowerUnit c = c"
    using assms(1) 1 by (simp_all add: toLowerCase_def)
  then have "a \<noteq> CHR ''W''" "b \<noteq> CHR ''W''" "c \<noteq> CHR ''W''"
    by (simp_all add: lowerUnit_W)
  then show ?thesis
    using assms(2) 1 by (auto simp: startsWith_def)
qed simp_all

text \<open>
  C10. For a domain that is not empty, is its own lower case and does not begin with
  \<open>www.\<close>, the redirect target of its rule is \<open>/blocked.html#d=\<close> followed by the encoded
  domain, and \<open>getDomainFromHash\<close> on the hash of that target returns the domain.
\<close>

theorem blocked_page_recovers_domain:
  assumes "d \<noteq> []" and "toLowerCase d = d" and "\<not> startsWith d ''www.''"
  shows "extensionPath (domainRule i d) = ''/blocked.html#d='' @ encodeURIComponent d \<and>
    getDomainFromHash (locationHash (extensionPath (domainRule i d))) = Hostname d"
proof -
  have "matchD (locationHash (extensionPath (domainRule i d))) = Some (encodeURIComponent d)"
    unfolding hash_of_rule
    by (rule matchD_hash [OF encodeURIComponent_nonempty [OF assms(1)] no_ampersand])
  then show ?thesis
    by (simp add: getDomainFromHash_def decode_encode stripWww_lower [OF assms(2,3)] assms(2))
      (simp add: domainRule_def)
qed

theorem blocked_page_recovers_domain_witness:
  "toLowerCase ''my site.example'' = ''my site.example'' \<and>
   \<not> startsWith ''my site.example'' ''www.'' \<and>
   extensionPath (domainRule 100000 ''my site.example'') = ''/blocked.html#d=my%20site.example'' \<and>
   getDomainFromHash ''#d=my%20site.example'' = Hostname ''my site.example''"
proof -
  have l: "toLowerCase ''my site.example'' = ''my site.example''" by code_simp
  have s: "\<not> startsWith ''my site.example'' ''www.''" by (simp add: startsWith_def)
  have e: "encodeURIComponent ''my site.example'' = ''my%20site.example''" by code_simp
  have h: "locationHash ''/blocked.html#d=my%20site.example'' = ''#d=my%20site.example''"
    by (simp add: locationHash_def)
  have d: "''my site.example'' \<noteq> []" by simp
  note t = blocked_page_recovers_domain [OF d l s, of 100000]
  have p: "extensionPath (domainRule 100000 ''my site.example'') =
      ''/blocked.html#d=my%20site.example''"
    using t [THEN conjunct1] by (simp only: e append.simps)
  have "getDomainFromHash ''#d=my%20site.example'' = Hostname ''my site.example''"
    using t [THEN conjunct2] by (simp only: p h)
  then show ?thesis
    using l s p by simp
qed

end
